theory Spec2Isabelle
  imports Main "HOL-Library.Word"
begin

unbundle bit_operations_syntax

section \<open>Machine integers and byte order\<close>

text \<open>
  \<^verbatim>\<open>cbfs.c\<close> works on \<^verbatim>\<open>uint8_t\<close>, \<^verbatim>\<open>uint32_t\<close> and \<^verbatim>\<open>uint64_t\<close> values; \<^verbatim>\<open>size_t\<close> is
  taken to be 64 bits wide (the program prints \<^verbatim>\<open>uint64_t\<close> with \<^verbatim>\<open>%lx\<close>). Arithmetic on
  words wraps around as the C arithmetic on unsigned types does.
\<close>

type_synonym u8 = "8 word"
type_synonym u32 = "32 word"
type_synonym u64 = "64 word"

text \<open>The byte order of the machine the program runs on.\<close>

datatype endian = LittleEndian | BigEndian

text \<open>The 32-bit value whose most significant byte is \<open>a\<close> and least significant \<open>d\<close>.\<close>

definition cat32 :: "u8 \<Rightarrow> u8 \<Rightarrow> u8 \<Rightarrow> u8 \<Rightarrow> u32" where
  "cat32 a b c d =
     push_bit 24 (ucast a) OR push_bit 16 (ucast b) OR push_bit 8 (ucast c) OR ucast d"

text \<open>
  The value the host reads from a \<^verbatim>\<open>uint32_t\<close> (or \<^verbatim>\<open>int32_t\<close>) object whose storage holds
  the bytes \<open>bs ! i\<close>, ..., \<open>bs ! (i + 3)\<close>: what \<^verbatim>\<open>memcpy\<close> into a struct, or
  \<^verbatim>\<open>copy_physical\<close> into an integer, leaves in the field.
\<close>

definition load32 :: "endian \<Rightarrow> u8 list \<Rightarrow> nat \<Rightarrow> u32" where
  "load32 e bs i =
     (case e of
        BigEndian \<Rightarrow> cat32 (bs ! i) (bs ! (i + 1)) (bs ! (i + 2)) (bs ! (i + 3))
      | LittleEndian \<Rightarrow> cat32 (bs ! (i + 3)) (bs ! (i + 2)) (bs ! (i + 1)) (bs ! i))"

definition bswap32 :: "u32 \<Rightarrow> u32" where
  "bswap32 x =
     cat32 (ucast x) (ucast (drop_bit 8 x)) (ucast (drop_bit 16 x)) (ucast (drop_bit 24 x))"

text \<open>\<^verbatim>\<open>ntohl\<close>: network (big-endian) to host order.\<close>

definition ntohl :: "endian \<Rightarrow> u32 \<Rightarrow> u32" where
  "ntohl e x = (case e of BigEndian \<Rightarrow> x | LittleEndian \<Rightarrow> bswap32 x)"

text \<open>The four bytes of a 32-bit value, in big-endian and in host order.\<close>

definition be_bytes :: "u32 \<Rightarrow> u8 list" where
  "be_bytes x = [ucast (drop_bit 24 x), ucast (drop_bit 16 x), ucast (drop_bit 8 x), ucast x]"

definition host_bytes :: "endian \<Rightarrow> u32 \<Rightarrow> u8 list" where
  "host_bytes e x = (case e of BigEndian \<Rightarrow> be_bytes x | LittleEndian \<Rightarrow> rev (be_bytes x))"

section \<open>Physical memory\<close>

type_synonym physmem = "u64 \<Rightarrow> u8"

text \<open>
  Modelled from the spec: \<^verbatim>\<open>copy_physical\<close> and \<^verbatim>\<open>map_physical\<close> are declared in
  \<^verbatim>\<open>util.h\<close> and their bodies are not among the sources. The spec's Physical Memory
  Accessor is \<^verbatim>\<open>read(address, length) -> bytes\<close> and
  \<^verbatim>\<open>map(address, length) -> read-only byte view\<close> over absolute physical addresses.
\<close>

definition copy_physical :: "physmem \<Rightarrow> u64 \<Rightarrow> nat \<Rightarrow> u8 list" where
  "copy_physical m addr n = map (\<lambda>i. m (addr + of_nat i)) [0..<n]"

definition map_physical :: "physmem \<Rightarrow> u64 \<Rightarrow> u64 \<Rightarrow> u8 list" where
  "map_physical m addr n = map (\<lambda>i. m (addr + of_nat i)) [0..<unat n]"

text \<open>
  A read of \<open>n\<close> bytes through a pointer \<open>p\<close> bytes into the mapped view. The C code
  checks nothing; a read that leaves the view is undefined behaviour, here \<open>None\<close>.
\<close>

definition view_read :: "u8 list \<Rightarrow> nat \<Rightarrow> nat \<Rightarrow> u8 list option" where
  "view_read view p n = (if p + n \<le> length view then Some (take n (drop p view)) else None)"

text \<open>
  The NUL-terminated string a \<^verbatim>\<open>%s\<close> conversion reads at pointer \<open>p\<close> of the view;
  \<open>None\<close> when no NUL byte lies between \<open>p\<close> and the end of the view.
\<close>

definition c_string :: "u8 list \<Rightarrow> nat \<Rightarrow> u8 list option" where
  "c_string view p =
     (let s = drop p view in if 0 \<in> set s then Some (takeWhile (\<lambda>c. c \<noteq> 0) s) else None)"

text \<open>
  \<^verbatim>\<open>strncmp(s, t, n)\<close>, where \<open>s\<close> are the bytes from the first pointer to the end of
  the object it points into and \<open>t\<close> is a C string given without its terminating NUL.
  \<open>Eq\<close> stands for the result 0, \<open>Ne\<close> for any other result, \<open>Oob\<close> for a comparison
  that reads beyond the last byte of \<open>s\<close>.
\<close>

datatype cmp = Eq | Ne | Oob

fun strncmp :: "u8 list \<Rightarrow> u8 list \<Rightarrow> nat \<Rightarrow> cmp" where
  "strncmp [] t n = (if n = 0 then Eq else Oob)"
| "strncmp (c # s) t n =
     (if n = 0 then Eq
      else case t of
        [] \<Rightarrow> (if c = 0 then Eq else Ne)
      | d # t' \<Rightarrow> (if c \<noteq> d then Ne else if c = 0 then Eq else strncmp s t' (n - 1)))"

section \<open>The CBFS structures\<close>

definition CBFS_HEADER_MAGIC :: u32 where
  "CBFS_HEADER_MAGIC = 0x4F524243"

record cbfs_header =
  h_magic :: u32
  h_version :: u32
  h_romsize :: u32
  h_bootblocksize :: u32
  h_align :: u32
  h_offset :: u32
  h_architecture :: u32
  h_pad :: u32

text \<open>\<^verbatim>\<open>"LARCHIVE"\<close>\<close>

definition CBFS_FILE_MAGIC :: "u8 list" where
  "CBFS_FILE_MAGIC = [0x4C, 0x41, 0x52, 0x43, 0x48, 0x49, 0x56, 0x45]"

text \<open>\<^verbatim>\<open>struct cbfs_file\<close> without its flexible \<^verbatim>\<open>filename\<close> member: 24 bytes.\<close>

record cbfs_file =
  f_magic :: "u8 list"
  f_len :: u32
  f_type :: u32
  f_attributes_offset :: u32
  f_offset :: u32

text \<open>
  \<^verbatim>\<open>copy_physical(header_off, sizeof(header), &header)\<close> followed by the seven
  \<^verbatim>\<open>ntohl\<close> assignments; \<^verbatim>\<open>pad[0]\<close> is left as read.
\<close>

definition decode_header :: "endian \<Rightarrow> u8 list \<Rightarrow> cbfs_header" where
  "decode_header e bs =
     \<lparr> h_magic = ntohl e (load32 e bs 0),
       h_version = ntohl e (load32 e bs 4),
       h_romsize = ntohl e (load32 e bs 8),
       h_bootblocksize = ntohl e (load32 e bs 12),
       h_align = ntohl e (load32 e bs 16),
       h_offset = ntohl e (load32 e bs 20),
       h_architecture = ntohl e (load32 e bs 24),
       h_pad = load32 e bs 28 \<rparr>"

text \<open>
  \<^verbatim>\<open>memcpy(&file, rom, sizeof(file))\<close> followed by the four \<^verbatim>\<open>ntohl\<close> assignments; the
  magic stays raw bytes.
\<close>

definition decode_file :: "endian \<Rightarrow> u8 list \<Rightarrow> cbfs_file" where
  "decode_file e bs =
     \<lparr> f_magic = take 8 bs,
       f_len = ntohl e (load32 e bs 8),
       f_type = ntohl e (load32 e bs 12),
       f_attributes_offset = ntohl e (load32 e bs 16),
       f_offset = ntohl e (load32 e bs 20) \<rparr>"

section \<open>Program state and output\<close>

datatype exit_status = EXIT_SUCCESS | EXIT_FAILURE

text \<open>
  What the program's own \<^verbatim>\<open>fprintf(stderr, ...)\<close> calls write, one constructor per
  call site (the seven header lines are one entry, as are the five file lines and the
  four lines printed after the increment).
\<close>

datatype emsg =
    Usage
  | ExcessArguments "u8 list"
  | SeekingTo u64
  | HeaderOffset u32
  | HeaderDump cbfs_header
  | NoValidHeader
  | PotentialFile u64
  | FileDump cbfs_file
  | FileName "u8 list"
  | StartData u64
  | BeyondROM
  | WriteFailed
  | EndData
  | Advance u32 u32 u64 u64
  | NotFound "u8 list"

text \<open>The variables \<^verbatim>\<open>main\<close> sets while it parses its options and only reads afterwards.\<close>

record options =
  verbose :: int
  do_list :: bool
  do_type :: bool
  cbfs_file_type :: u32
  filename :: "u8 list"

text \<open>
  The variables the loop changes, and the output so far: \<open>off\<close> is the cursor's absolute
  address, \<open>rom\<close> the pointer of the same name as a byte offset into the mapped view;
  \<open>printed\<close> is what \<^verbatim>\<open>printf\<close> put on the \<^verbatim>\<open>stdout\<close> stream, \<open>written\<close> what
  \<^verbatim>\<open>write(STDOUT_FILENO, ...)\<close> accepted, \<open>nwrites\<close> the number of \<^verbatim>\<open>write\<close> calls made.
\<close>

record state =
  off :: u64
  rom :: nat
  do_read :: int
  printed :: "u8 list"
  written :: "u8 list"
  nwrites :: nat
  errs :: "emsg list"

definition err :: "emsg \<Rightarrow> state \<Rightarrow> state" where
  "err m s = s\<lparr>errs := errs s @ [m]\<rparr>"

text \<open>\<^verbatim>\<open>if (verbose) fprintf(stderr, ...)\<close>\<close>

definition vlog :: "options \<Rightarrow> emsg \<Rightarrow> state \<Rightarrow> state" where
  "vlog opts m s = (if verbose opts \<noteq> 0 then err m s else s)"

section \<open>One iteration of the loop over the files\<close>

text \<open>How an iteration ends: the loop goes on, \<^verbatim>\<open>break\<close>, \<^verbatim>\<open>return\<close>, or a read outside the view.\<close>

datatype flow = Continue state | Break state | Return exit_status state | OutOfView state

text \<open>\<^verbatim>\<open>!do_type || (do_type && file.type == cbfs_file_type)\<close>\<close>

definition type_ok :: "options \<Rightarrow> cbfs_file \<Rightarrow> bool" where
  "type_ok opts file = (\<not> do_type opts \<or> (do_type opts \<and> f_type file = cbfs_file_type opts))"

text \<open>\<^verbatim>\<open>if (verbose) fprintf(stderr, "File name : '%s'\n", name)\<close>\<close>

definition log_name :: "options \<Rightarrow> u8 list \<Rightarrow> nat \<Rightarrow> state \<Rightarrow> state option" where
  "log_name opts view name s =
     (if verbose opts \<noteq> 0
      then (case c_string view name of None \<Rightarrow> None | Some n \<Rightarrow> Some (err (FileName n) s))
      else Some s)"

text \<open>\<^verbatim>\<open>if (do_list && type_ok) printf("%s\n", name)\<close>\<close>

definition list_name :: "options \<Rightarrow> cbfs_file \<Rightarrow> u8 list \<Rightarrow> nat \<Rightarrow> state \<Rightarrow> state option" where
  "list_name opts file view name s =
     (if do_list opts \<and> type_ok opts file
      then (case c_string view name of
              None \<Rightarrow> None
            | Some n \<Rightarrow> Some (s\<lparr>printed := printed s @ n @ [10]\<rparr>))
      else Some s)"

text \<open>
  \<^verbatim>\<open>do_read && type_ok && strncmp(name, filename, name_size) == 0\<close>: by the
  short-circuit \<^verbatim>\<open>&&\<close> the comparison runs only when the first two operands hold.
\<close>

definition name_test :: "options \<Rightarrow> cbfs_file \<Rightarrow> u8 list \<Rightarrow> nat \<Rightarrow> u64 \<Rightarrow> state \<Rightarrow> cmp" where
  "name_test opts file view name n s =
     (if do_read s \<noteq> 0 \<and> type_ok opts file
      then strncmp (drop name view) (filename opts) (unat n)
      else Ne)"

text \<open>
  \<^verbatim>\<open>write(STDOUT_FILENO, buf, count)\<close>: the environment decides the result of the
  \<open>k\<close>-th call, \<open>wr k\<close>; a call never reports more bytes than it was asked to write.
\<close>

definition write_rc :: "(nat \<Rightarrow> int) \<Rightarrow> nat \<Rightarrow> nat \<Rightarrow> int" where
  "write_rc wr k count = min (wr k) (int count)"

text \<open>
  The \<^verbatim>\<open>for (size_t offset = 0; offset < file.len; )\<close> loop; the flag is \<open>False\<close> when a
  \<^verbatim>\<open>write\<close> returned \<open>rc \<le> 0\<close>.
\<close>

function write_loop :: "(nat \<Rightarrow> int) \<Rightarrow> u8 list \<Rightarrow> nat \<Rightarrow> state \<Rightarrow> state \<times> bool" where
  "write_loop wr data offset s =
     (if offset < length data then
        (let rc = write_rc wr (nwrites s) (length data - offset) in
         if rc \<le> 0 then (s\<lparr>nwrites := nwrites s + 1\<rparr>, False)
         else write_loop wr data (offset + nat rc)
                (s\<lparr>written := written s @ take (nat rc) (drop offset data),
                   nwrites := nwrites s + 1\<rparr>))
      else (s, True))"
  by pat_completeness auto
termination
  by (relation "measure (\<lambda>(wr, data, offset, s). length data - offset)") auto

declare write_loop.simps [simp del]

text \<open>The body of the \<^verbatim>\<open>if\<close> that a matching record enters.\<close>

definition extract_file :: "(nat \<Rightarrow> int) \<Rightarrow> options \<Rightarrow> u8 list \<Rightarrow> u64 \<Rightarrow> cbfs_file \<Rightarrow> state \<Rightarrow> flow" where
  "extract_file wr opts view rom_end file s =
     (let file_off = off s + ucast (f_offset file);
          s1 = vlog opts (StartData file_off) s in
      if file_off + ucast (f_len file) > rom_end then Return EXIT_FAILURE (err BeyondROM s1)
      else
        (case view_read view (rom s1 + unat (f_offset file)) (unat (f_len file)) of
           None \<Rightarrow> OutOfView s1
         | Some data \<Rightarrow>
             (case write_loop wr data 0 s1 of
                (s2, False) \<Rightarrow> Return EXIT_FAILURE (err WriteFailed s2)
              | (s2, True) \<Rightarrow> Break ((vlog opts EndData s2)\<lparr>do_read := do_read s2 + 1\<rparr>))))"

text \<open>\<^verbatim>\<open>(align + (file.offset + file.len) - 1) & (~(align-1))\<close>, computed in 32 bits.\<close>

definition increment :: "u32 \<Rightarrow> cbfs_file \<Rightarrow> u32" where
  "increment align file = (align + (f_offset file + f_len file) - 1) AND NOT (align - 1)"

definition advance :: "options \<Rightarrow> u32 \<Rightarrow> cbfs_file \<Rightarrow> state \<Rightarrow> state" where
  "advance opts align file s =
     (let inc = (ucast (increment align file) :: u64);
          s' = s\<lparr>off := off s + inc, rom := rom s + unat inc\<rparr>
      in vlog opts (Advance (f_offset file + f_len file) align inc (off s')) s')"

text \<open>\<^verbatim>\<open>size_t name_size = file.offset - sizeof(file)\<close>, in 64 bits.\<close>

definition name_size :: "cbfs_file \<Rightarrow> u64" where
  "name_size file = ucast (f_offset file) - 24"

definition step :: "endian \<Rightarrow> (nat \<Rightarrow> int) \<Rightarrow> options \<Rightarrow> u8 list \<Rightarrow> u32 \<Rightarrow> u64 \<Rightarrow> state \<Rightarrow> flow" where
  "step e wr opts view align rom_end s0 =
     (let s1 = vlog opts (PotentialFile (off s0)) s0 in
      case view_read view (rom s1) 24 of
        None \<Rightarrow> OutOfView s1
      | Some bs \<Rightarrow>
          (let file = decode_file e bs;
               s2 = vlog opts (FileDump file) s1 in
           if strncmp (f_magic file) CBFS_FILE_MAGIC 8 \<noteq> Eq then Break s2
           else
             (let name = rom s2 + 24 in
              case log_name opts view name s2 of
                None \<Rightarrow> OutOfView s2
              | Some s3 \<Rightarrow>
                  (case list_name opts file view name s3 of
                     None \<Rightarrow> OutOfView s3
                   | Some s4 \<Rightarrow>
                       (case name_test opts file view name (name_size file) s4 of
                          Oob \<Rightarrow> OutOfView s4
                        | Eq \<Rightarrow> extract_file wr opts view rom_end file s4
                        | Ne \<Rightarrow> Continue (advance opts align file s4))))))"

section \<open>The loop and the program\<close>

text \<open>
  How the program ends: \<^verbatim>\<open>main\<close> returns a status, or it has read outside the view.
  A run that never ends has no outcome.
\<close>

datatype outcome = Exit exit_status state | Undefined state

text \<open>
  \<^verbatim>\<open>while (off < end) { ... }\<close> with fuel: \<open>None\<close> when the loop is still running after
  \<open>n\<close> iterations, \<open>Some (Inl s)\<close> when the loop was left with the variables \<open>s\<close>,
  \<open>Some (Inr r)\<close> when the program ended inside the loop.
\<close>

fun walk :: "nat \<Rightarrow> endian \<Rightarrow> (nat \<Rightarrow> int) \<Rightarrow> options \<Rightarrow> u8 list \<Rightarrow> u32 \<Rightarrow> u64 \<Rightarrow> state
    \<Rightarrow> (state + outcome) option" where
  "walk 0 e wr opts view align rom_end s = (if off s < rom_end then None else Some (Inl s))"
| "walk (Suc n) e wr opts view align rom_end s =
     (if off s < rom_end then
        (case step e wr opts view align rom_end s of
           Continue s' \<Rightarrow> walk n e wr opts view align rom_end s'
         | Break s' \<Rightarrow> Some (Inl s')
         | Return st s' \<Rightarrow> Some (Inr (Exit st s'))
         | OutOfView s' \<Rightarrow> Some (Inr (Undefined s')))
      else Some (Inl s))"

text \<open>The statements after the loop.\<close>

definition after_loop :: "options \<Rightarrow> state \<Rightarrow> outcome" where
  "after_loop opts s =
     (if do_read s = 1 then Exit EXIT_FAILURE (err (NotFound (filename opts)) s)
      else Exit EXIT_SUCCESS s)"

definition top_of_space :: u64 where
  "top_of_space = 0x100000000"

text \<open>Lines 121 to 157: the footer pointer and the header.\<close>

definition locate_header :: "endian \<Rightarrow> physmem \<Rightarrow> options \<Rightarrow> state \<Rightarrow> cbfs_header \<times> state" where
  "locate_header e m opts s0 =
     (let rom_end = top_of_space;
          s1 = vlog opts (SeekingTo (rom_end - 4)) s0;
          header_delta = load32 e (copy_physical m (rom_end - 4) 4) 0;
          s2 = vlog opts (HeaderOffset header_delta) s1;
          header_off = rom_end + scast header_delta;
          s3 = vlog opts (SeekingTo header_off) s2;
          header = decode_header e (copy_physical m header_off 32)
      in (header, vlog opts (HeaderDump header) s3))"

text \<open>The loop followed by the statements after it.\<close>

definition run_loop :: "nat \<Rightarrow> endian \<Rightarrow> (nat \<Rightarrow> int) \<Rightarrow> options \<Rightarrow> u8 list \<Rightarrow> u32 \<Rightarrow> u64 \<Rightarrow> state
    \<Rightarrow> outcome option" where
  "run_loop n e wr opts view align rom_end s =
     (case walk n e wr opts view align rom_end s of
        None \<Rightarrow> None
      | Some (Inl s') \<Rightarrow> Some (after_loop opts s')
      | Some (Inr r) \<Rightarrow> Some r)"

text \<open>Lines 159 to 261: the magic check, the mapping of the region, the loop, the exit status.\<close>

definition walk_image :: "nat \<Rightarrow> endian \<Rightarrow> physmem \<Rightarrow> (nat \<Rightarrow> int) \<Rightarrow> options \<Rightarrow> cbfs_header \<Rightarrow> state
    \<Rightarrow> outcome option" where
  "walk_image n e m wr opts header s =
     (if h_magic header \<noteq> CBFS_HEADER_MAGIC then Some (Exit EXIT_FAILURE (err NoValidHeader s))
      else
        (let rom_end = top_of_space;
             align = h_align header;
             start = rom_end - ucast (h_romsize header) + ucast (h_offset header);
             view = map_physical m start (rom_end - start)
         in run_loop n e wr opts view align rom_end (s\<lparr>off := start, rom := 0\<rparr>)))"

definition cbfs :: "nat \<Rightarrow> endian \<Rightarrow> physmem \<Rightarrow> (nat \<Rightarrow> int) \<Rightarrow> options \<Rightarrow> state \<Rightarrow> outcome option" where
  "cbfs n e m wr opts s =
     (case locate_header e m opts s of (header, s') \<Rightarrow> walk_image n e m wr opts header s')"

section \<open>The command line\<close>

text \<open>
  \<^verbatim>\<open>getopt_long\<close> and \<^verbatim>\<open>strtoul\<close> are the C library's. The command line is given as what
  successive \<^verbatim>\<open>getopt_long\<close> calls return before \<open>-1\<close>, each value with its
  \<^verbatim>\<open>optarg\<close>, together with \<^verbatim>\<open>argc - optind\<close> after the last call; \<^verbatim>\<open>strtoul(_, NULL, 16)\<close>
  is a parameter. With the option string \<^verbatim>\<open>"h?vlr:t:"\<close>, \<^verbatim>\<open>getopt_long\<close> returns
  \<^verbatim>\<open>'?'\<close> for the option \<^verbatim>\<open>-?\<close>, for an option it does not know and for a missing
  argument.
\<close>

definition no_options :: options where
  "no_options = \<lparr> verbose = 0, do_list = False, do_type = False, cbfs_file_type = 0, filename = [] \<rparr>"

definition init_state :: state where
  "init_state = \<lparr> off = 0, rom = 0, do_read = 0, printed = [], written = [], nwrites = 0, errs = [] \<rparr>"

text \<open>The \<^verbatim>\<open>switch\<close> in the option loop: \<open>Inl\<close> is a \<^verbatim>\<open>return\<close> after printing the usage.\<close>

fun parse_opts :: "(u8 list \<Rightarrow> u64) \<Rightarrow> (char \<times> u8 list) list \<Rightarrow> options \<times> int
    \<Rightarrow> exit_status + options \<times> int" where
  "parse_opts strtoul16 [] acc = Inr acc"
| "parse_opts strtoul16 ((opt, optarg) # rest) (opts, rd) =
     (if opt = CHR ''v'' then parse_opts strtoul16 rest (opts\<lparr>verbose := verbose opts + 1\<rparr>, rd)
      else if opt = CHR ''l'' then parse_opts strtoul16 rest (opts\<lparr>do_list := True\<rparr>, rd)
      else if opt = CHR ''r'' then parse_opts strtoul16 rest (opts\<lparr>filename := optarg\<rparr>, 1)
      else if opt = CHR ''t'' then
        parse_opts strtoul16 rest
          (opts\<lparr>do_type := True, cbfs_file_type := ucast (strtoul16 optarg)\<rparr>, rd)
      else if opt = CHR ''?'' \<or> opt = CHR ''h'' then Inl EXIT_SUCCESS
      else Inl EXIT_FAILURE)"

definition main :: "nat \<Rightarrow> endian \<Rightarrow> physmem \<Rightarrow> (nat \<Rightarrow> int) \<Rightarrow> (u8 list \<Rightarrow> u64)
    \<Rightarrow> int \<Rightarrow> u8 list \<Rightarrow> (char \<times> u8 list) list \<Rightarrow> int \<Rightarrow> outcome option" where
  "main n e m wr strtoul16 argc prog_name getopts rest =
     (if argc \<le> 1 then Some (Exit EXIT_FAILURE (err Usage init_state))
      else
        (case parse_opts strtoul16 getopts (no_options, 0) of
           Inl st \<Rightarrow> Some (Exit st (err Usage init_state))
         | Inr (opts, rd) \<Rightarrow>
             if \<not> do_list opts \<and> rd = 0 then Some (Exit EXIT_FAILURE (err Usage init_state))
             else if rest \<noteq> 0 then
               Some (Exit EXIT_FAILURE (err (ExcessArguments prog_name) init_state))
             else cbfs n e m wr opts (init_state\<lparr>do_read := rd\<rparr>)))"

section \<open>Notions used to state the properties\<close>

text \<open>
  The variables when an iteration reaches the name comparison for a record \<open>file\<close> whose
  name reads as \<open>name\<close>: the diagnostics are on \<^verbatim>\<open>stderr\<close> and, in list mode, the name is
  printed.
\<close>

definition seen :: "options \<Rightarrow> cbfs_file \<Rightarrow> u8 list \<Rightarrow> state \<Rightarrow> state" where
  "seen opts file name s =
     (let s3 = vlog opts (FileName name)
                 (vlog opts (FileDump file) (vlog opts (PotentialFile (off s)) s))
      in if do_list opts \<and> type_ok opts file then s3\<lparr>printed := printed s3 @ name @ [10]\<rparr> else s3)"

text \<open>
  The pointer \<open>rom\<close> and the address \<open>off\<close> move together: \<open>rom\<close> is as far into the
  view as \<open>off\<close> is above the start of the region the view maps.
\<close>

definition cursor_ok :: "u8 list \<Rightarrow> u64 \<Rightarrow> state \<Rightarrow> bool" where
  "cursor_ok view rom_end s = (unat (off s) + length view = unat rom_end + rom s)"

text \<open>The spec's \<open>align_up\<close>: \<open>x\<close> rounded up to a multiple of \<open>a\<close>.\<close>

definition align_up :: "nat \<Rightarrow> nat \<Rightarrow> nat" where
  "align_up x a = ((x + a - 1) div a) * a"

text \<open>A record of the table as the spec describes it: the decoded header and the name.\<close>

record entry =
  e_file :: cbfs_file
  e_name :: "u8 list"

text \<open>
  The view holds the table \<open>rs\<close> at the cursor: the records of \<open>rs\<close> one after the other,
  each with the magic \<^verbatim>\<open>"LARCHIVE"\<close> and a NUL-terminated name, each where the increment of
  the one before puts it, and after the last one the end of the region or 24 bytes whose
  magic differs.
\<close>

fun table_at :: "endian \<Rightarrow> u8 list \<Rightarrow> u32 \<Rightarrow> u64 \<Rightarrow> u64 \<Rightarrow> nat \<Rightarrow> entry list \<Rightarrow> bool" where
  "table_at e view align rom_end a p [] =
     (if a < rom_end
      then (case view_read view p 24 of
              None \<Rightarrow> False
            | Some bs \<Rightarrow> f_magic (decode_file e bs) \<noteq> CBFS_FILE_MAGIC)
      else True)"
| "table_at e view align rom_end a p (r # rs) =
     (a < rom_end \<and>
      (case view_read view p 24 of
         None \<Rightarrow> False
       | Some bs \<Rightarrow>
           decode_file e bs = e_file r \<and> f_magic (e_file r) = CBFS_FILE_MAGIC \<and>
           c_string view (p + 24) = Some (e_name r) \<and>
           table_at e view align rom_end (a + ucast (increment align (e_file r)))
             (p + unat (increment align (e_file r))) rs))"

text \<open>The same without the condition on what follows the last record.\<close>

fun records_at :: "endian \<Rightarrow> u8 list \<Rightarrow> u32 \<Rightarrow> u64 \<Rightarrow> u64 \<Rightarrow> nat \<Rightarrow> entry list \<Rightarrow> bool" where
  "records_at e view align rom_end a p [] = True"
| "records_at e view align rom_end a p (r # rs) =
     (a < rom_end \<and>
      (case view_read view p 24 of
         None \<Rightarrow> False
       | Some bs \<Rightarrow>
           decode_file e bs = e_file r \<and> f_magic (e_file r) = CBFS_FILE_MAGIC \<and>
           c_string view (p + 24) = Some (e_name r) \<and>
           records_at e view align rom_end (a + ucast (increment align (e_file r)))
             (p + unat (increment align (e_file r))) rs))"

text \<open>The variables after the iterations that pass over the records \<open>rs\<close>.\<close>

definition skip_records :: "options \<Rightarrow> u32 \<Rightarrow> state \<Rightarrow> entry list \<Rightarrow> state" where
  "skip_records opts align s rs =
     foldl (\<lambda>s r. advance opts align (e_file r) (seen opts (e_file r) (e_name r) s)) s rs"

text \<open>What the loop yields when an iteration ends in another way than by going on.\<close>

fun leave :: "flow \<Rightarrow> (state + outcome) option" where
  "leave (Continue s) = None"
| "leave (Break s) = Some (Inl s)"
| "leave (Return st s) = Some (Inr (Exit st s))"
| "leave (OutOfView s) = Some (Inr (Undefined s))"

text \<open>
  The variables the loop can have at the start of an iteration, from given ones on: the
  iterations before went on to the next record.
\<close>

inductive reaches :: "endian \<Rightarrow> (nat \<Rightarrow> int) \<Rightarrow> options \<Rightarrow> u8 list \<Rightarrow> u32 \<Rightarrow> u64 \<Rightarrow> state \<Rightarrow> state \<Rightarrow> bool"
  for e wr opts view align rom_end where
    here: "reaches e wr opts view align rom_end s s"
  | next_record: "off s < rom_end \<Longrightarrow> step e wr opts view align rom_end s = Continue s' \<Longrightarrow>
       reaches e wr opts view align rom_end s' s'' \<Longrightarrow>
       reaches e wr opts view align rom_end s s''"

text \<open>The lines list mode prints for a table: the names that pass the type filter.\<close>

definition listing :: "options \<Rightarrow> entry list \<Rightarrow> u8 list" where
  "listing opts rs =
     concat (map (\<lambda>r. e_name r @ [10]) (filter (\<lambda>r. type_ok opts (e_file r)) rs))"

text \<open>
  The record passes the type filter and its name agrees with the requested one on the
  first \<open>name_size\<close> bytes, terminators included.
\<close>

definition selected :: "options \<Rightarrow> entry \<Rightarrow> bool" where
  "selected opts r =
     (type_ok opts (e_file r) \<and>
      take (unat (name_size (e_file r))) (e_name r @ [0]) =
        take (unat (name_size (e_file r))) (filename opts @ [0]))"

section \<open>An example image\<close>

text \<open>Physical memory that holds the bytes \<open>bs\<close> from the address \<open>base\<close> on, and zeros elsewhere.\<close>

definition image_mem :: "u64 \<Rightarrow> u8 list \<Rightarrow> physmem" where
  "image_mem base bs a = (if unat (a - base) < length bs then bs ! unat (a - base) else 0)"

text \<open>
  A 256-byte ROM at \<open>0xFFFFFF00\<close>: the file \<^verbatim>\<open>bootblock\<close> (type \<open>0x10\<close>, four bytes of
  data, 16 bytes for the name) at offset 0, the file \<^verbatim>\<open>config\<close> (type \<open>0x50\<close>, two bytes,
  8 bytes for the name) at offset 64, erased flash from offset 128, the header
  (version 2, ROM size \<open>0x100\<close>, alignment 64, offset 0) at offset 192, and in the last
  four bytes the footer pointer \<open>-64\<close> in little-endian order.
\<close>

definition demo_rom :: "u8 list" where
  "demo_rom =
     [0x4C, 0x41, 0x52, 0x43, 0x48, 0x49, 0x56, 0x45, 0, 0, 0, 4, 0, 0, 0, 0x10,
      0, 0, 0, 0, 0, 0, 0, 0x28, 0x62, 0x6F, 0x6F, 0x74, 0x62, 0x6C, 0x6F, 0x63,
      0x6B, 0, 0, 0, 0, 0, 0, 0, 0xDE, 0xAD, 0xBE, 0xEF, 0, 0, 0, 0,
      0, 0, 0, 0, 0, 0, 0, 0, 0, 0, 0, 0, 0, 0, 0, 0,
      0x4C, 0x41, 0x52, 0x43, 0x48, 0x49, 0x56, 0x45, 0, 0, 0, 2, 0, 0, 0, 0x50,
      0, 0, 0, 0, 0, 0, 0, 0x20, 0x63, 0x6F, 0x6E, 0x66, 0x69, 0x67, 0, 0,
      0xCA, 0xFE, 0, 0, 0, 0, 0, 0, 0, 0, 0, 0, 0, 0, 0, 0,
      0, 0, 0, 0, 0, 0, 0, 0, 0, 0, 0, 0, 0, 0, 0, 0,
      0xFF, 0xFF, 0xFF, 0xFF, 0xFF, 0xFF, 0xFF, 0xFF, 0xFF, 0xFF, 0xFF, 0xFF, 0xFF, 0xFF, 0xFF, 0xFF,
      0xFF, 0xFF, 0xFF, 0xFF, 0xFF, 0xFF, 0xFF, 0xFF, 0xFF, 0xFF, 0xFF, 0xFF, 0xFF, 0xFF, 0xFF, 0xFF,
      0xFF, 0xFF, 0xFF, 0xFF, 0xFF, 0xFF, 0xFF, 0xFF, 0xFF, 0xFF, 0xFF, 0xFF, 0xFF, 0xFF, 0xFF, 0xFF,
      0xFF, 0xFF, 0xFF, 0xFF, 0xFF, 0xFF, 0xFF, 0xFF, 0xFF, 0xFF, 0xFF, 0xFF, 0xFF, 0xFF, 0xFF, 0xFF,
      0x4F, 0x52, 0x42, 0x43, 0x31, 0x31, 0x31, 0x32, 0, 0, 1, 0, 0, 0, 0, 0x40,
      0, 0, 0, 0x40, 0, 0, 0, 0, 0, 0, 0, 1, 0, 0, 0, 0,
      0, 0, 0, 0, 0, 0, 0, 0, 0, 0, 0, 0, 0, 0, 0, 0,
      0, 0, 0, 0, 0, 0, 0, 0, 0, 0, 0, 0, 0xC0, 0xFF, 0xFF, 0xFF]"

definition demo_mem :: physmem where
  "demo_mem = image_mem 0xFFFFFF00 demo_rom"

definition demo_header :: cbfs_header where
  "demo_header =
     \<lparr> h_magic = 0x4F524243, h_version = 0x31313132, h_romsize = 0x100,
       h_bootblocksize = 0x40, h_align = 0x40, h_offset = 0, h_architecture = 1, h_pad = 0 \<rparr>"

definition bootblock :: entry where
  "bootblock =
     \<lparr> e_file = \<lparr> f_magic = CBFS_FILE_MAGIC, f_len = 4, f_type = 0x10,
                  f_attributes_offset = 0, f_offset = 0x28 \<rparr>,
       e_name = [0x62, 0x6F, 0x6F, 0x74, 0x62, 0x6C, 0x6F, 0x63, 0x6B] \<rparr>"

definition config :: entry where
  "config =
     \<lparr> e_file = \<lparr> f_magic = CBFS_FILE_MAGIC, f_len = 2, f_type = 0x50,
                  f_attributes_offset = 0, f_offset = 0x20 \<rparr>,
       e_name = [0x63, 0x6F, 0x6E, 0x66, 0x69, 0x67] \<rparr>"

text \<open>The options as \<^verbatim>\<open>-l\<close> alone and as \<^verbatim>\<open>-r name\<close> alone leave them.\<close>

definition list_opts :: options where
  "list_opts = no_options\<lparr>do_list := True\<rparr>"

definition read_opts :: "u8 list \<Rightarrow> options" where
  "read_opts name = no_options\<lparr>filename := name\<rparr>"

text \<open>The options as \<^verbatim>\<open>-l -r name\<close> leave them.\<close>

definition list_read_opts :: "u8 list \<Rightarrow> options" where
  "list_read_opts name = no_options\<lparr>do_list := True, filename := name\<rparr>"

text \<open>The name \<^verbatim>\<open>nofile\<close>, and the variables when the loop reaches the second record.\<close>

definition nofile :: "u8 list" where
  "nofile = [0x6E, 0x6F, 0x66, 0x69, 0x6C, 0x65]"

definition at_config :: state where
  "at_config = init_state\<lparr>off := 0xFFFFFF40, rom := 64, do_read := 1\<rparr>"

text \<open>
  A 64-byte region with one record whose header leaves four bytes for the name: the name
  field holds \<^verbatim>\<open>boot\<close> with no terminator and the one byte of data, \<^verbatim>\<open>X\<close>, follows it.
\<close>

definition short_rom :: "u8 list" where
  "short_rom =
     [0x4C, 0x41, 0x52, 0x43, 0x48, 0x49, 0x56, 0x45, 0, 0, 0, 1, 0, 0, 0, 0x10,
      0, 0, 0, 0, 0, 0, 0, 0x1C, 0x62, 0x6F, 0x6F, 0x74, 0x58, 0, 0, 0,
      0, 0, 0, 0, 0, 0, 0, 0, 0, 0, 0, 0, 0, 0, 0, 0,
      0, 0, 0, 0, 0, 0, 0, 0, 0, 0, 0, 0, 0, 0, 0, 0]"

definition short_entry :: entry where
  "short_entry =
     \<lparr> e_file = \<lparr> f_magic = CBFS_FILE_MAGIC, f_len = 1, f_type = 0x10,
                  f_attributes_offset = 0, f_offset = 0x1C \<rparr>,
       e_name = [0x62, 0x6F, 0x6F, 0x74, 0x58] \<rparr>"

text \<open>The name \<^verbatim>\<open>bootloader\<close>.\<close>

definition bootloader :: "u8 list" where
  "bootloader = [0x62, 0x6F, 0x6F, 0x74, 0x6C, 0x6F, 0x61, 0x64, 0x65, 0x72]"

text \<open>The variables when the loop starts on this region in read mode.\<close>

definition at_short :: state where
  "at_short = init_state\<lparr>off := 0xFFFFFFC0, do_read := 1\<rparr>"

text \<open>
  A 64-byte ROM whose only record has the magic, length 0 and offset 0. The name pointer
  finds a NUL at once; the header (ROM size \<open>0x40\<close>, alignment 64, offset 0) follows at
  offset 28 and the footer pointer \<open>-36\<close> ends the image.
\<close>

definition loop_rom :: "u8 list" where
  "loop_rom =
     [0x4C, 0x41, 0x52, 0x43, 0x48, 0x49, 0x56, 0x45, 0, 0, 0, 0, 0, 0, 0, 0,
      0, 0, 0, 0, 0, 0, 0, 0, 0, 0, 0, 0, 0x4F, 0x52, 0x42, 0x43,
      0x31, 0x31, 0x31, 0x32, 0, 0, 0, 0x40, 0, 0, 0, 0, 0, 0, 0, 0x40,
      0, 0, 0, 0, 0, 0, 0, 1, 0, 0, 0, 0, 0xDC, 0xFF, 0xFF, 0xFF]"

definition loop_mem :: physmem where
  "loop_mem = image_mem 0xFFFFFFC0 loop_rom"

text \<open>The variables when the loop starts on a 64-byte region in list mode.\<close>

definition at_loop :: state where
  "at_loop = init_state\<lparr>off := 0xFFFFFFC0\<rparr>"

text \<open>
  \<^verbatim>\<open>write\<close> accepting one byte per call, and \<^verbatim>\<open>write\<close> accepting one byte and then
  returning 0; \<^verbatim>\<open>strtoul\<close> returning 0, and returning \<open>v\<close>.
\<close>

definition wr_one :: "nat \<Rightarrow> int" where
  "wr_one k = 1"


definition strtoul_zero :: "u8 list \<Rightarrow> u64" where
  "strtoul_zero a = 0"

definition strtoul_of :: "u64 \<Rightarrow> u8 list \<Rightarrow> u64" where
  "strtoul_of v a = v"

text \<open>A record header of length \<open>0xFFFFFFF0\<close>, and one of length 76, both with offset 24.\<close>

definition huge_file :: cbfs_file where
  "huge_file = \<lparr> f_magic = CBFS_FILE_MAGIC, f_len = 0xFFFFFFF0, f_type = 0,
                 f_attributes_offset = 0, f_offset = 0x18 \<rparr>"

definition small_file :: cbfs_file where
  "small_file = \<lparr> f_magic = CBFS_FILE_MAGIC, f_len = 76, f_type = 0,
                  f_attributes_offset = 0, f_offset = 0x18 \<rparr>"

text \<open>
  Memory whose header, at \<open>0xFFFFFFD8\<close>, declares a ROM of 8 bytes: the region is the last
  8 bytes below 4 GiB, 4 zero bytes and the footer pointer \<open>-40\<close>.
\<close>

definition tiny_mem :: physmem where
  "tiny_mem = image_mem 0xFFFFFFD8
     [0x4F, 0x52, 0x42, 0x43, 0x31, 0x31, 0x31, 0x32, 0, 0, 0, 8, 0, 0, 0, 0,
      0, 0, 0, 0x40, 0, 0, 0, 0, 0, 0, 0, 1, 0, 0, 0, 0,
      0, 0, 0, 0, 0xD8, 0xFF, 0xFF, 0xFF]"

section \<open>Byte order\<close>

lemma byte_hi [simp]: "\<not> bit (w :: u8) (8 + n)" "\<not> bit (w :: u8) (16 + n)" "\<not> bit (w :: u8) (24 + n)"
  by (auto dest: bit_imp_le_length)

lemma ucast_cat32_0: "(ucast (cat32 a b c d) :: u8) = d"
  unfolding cat32_def by (rule bit_eqI) (simp add: bit_simps)
lemma ucast_cat32_1: "(ucast (drop_bit 8 (cat32 a b c d)) :: u8) = c"
  unfolding cat32_def by (rule bit_eqI) (simp add: bit_simps)
lemma ucast_cat32_2: "(ucast (drop_bit 16 (cat32 a b c d)) :: u8) = b"
  unfolding cat32_def by (rule bit_eqI) (simp add: bit_simps)
lemma ucast_cat32_3: "(ucast (drop_bit 24 (cat32 a b c d)) :: u8) = a"
  unfolding cat32_def by (rule bit_eqI) (simp add: bit_simps)

lemma bswap32_cat32: "bswap32 (cat32 a b c d) = cat32 d c b a"
  by (simp add: bswap32_def ucast_cat32_0 ucast_cat32_1 ucast_cat32_2 ucast_cat32_3)

lemma cat32_bytes: "cat32 (ucast (drop_bit 24 x)) (ucast (drop_bit 16 x)) (ucast (drop_bit 8 x)) (ucast x) = x"
  unfolding cat32_def 
  apply (rule bit_eqI)
  subgoal for n
    apply (cases "n < 8"; cases "n < 16"; cases "n < 24")
    apply (auto simp add: bit_simps)
    done
  done

lemma scast_addr: "uint (top_of_space + scast (d :: u32)) = 4294967296 + sint d"
proof -
  have b: "- (2 ^ 31) \<le> sint d" "sint d < 2 ^ 31"
    using sint_ge [of d] sint_lt [of d] by simp_all
  have s: "(scast d :: u64) = word_of_int (sint d)" by (rule scast_eq)
  have t: "top_of_space = word_of_int 4294967296" by (simp add: top_of_space_def)
  have "top_of_space + scast d = (word_of_int (4294967296 + sint d) :: u64)"
    unfolding s t by (rule wi_hom_add)
  then have "uint (top_of_space + scast d) = take_bit 64 (4294967296 + sint d)"
    by (simp only: uint_word_of_int_eq) simp
  also have "\<dots> = 4294967296 + sint d"
    using b by (intro take_bit_int_eq_self) simp_all
  finally show ?thesis .
qed

section \<open>The example memory, and the header locator\<close>

lemma length_demo_rom: "length demo_rom = 256"
  by (simp add: demo_rom_def)

lemma image_mem_nth:
  assumes "i < length bs" "length bs \<le> 2 ^ 64"
  shows "image_mem base bs (base + of_nat i) = bs ! i"
proof -
  have "i < 2 ^ 64" using assms by simp
  then have "unat (of_nat i :: u64) = i"
    by (simp add: unat_of_nat)
  then show ?thesis using assms by (simp add: image_mem_def)
qed

lemma copy_physical_image:
  assumes "k + n \<le> length bs" "length bs \<le> 2 ^ 64"
  shows "copy_physical (image_mem base bs) (base + of_nat k) n = take n (drop k bs)"
proof (rule nth_equalityI)
  show "length (copy_physical (image_mem base bs) (base + of_nat k) n) = length (take n (drop k bs))"
    using assms by (simp add: copy_physical_def)
next
  fix i assume "i < length (copy_physical (image_mem base bs) (base + of_nat k) n)"
  then have i: "i < n" by (simp add: copy_physical_def)
  then have "k + i < length bs" using assms by simp
  then have "image_mem base bs (base + of_nat (k + i)) = bs ! (k + i)"
    using assms(2) by (rule image_mem_nth)
  then show "copy_physical (image_mem base bs) (base + of_nat k) n ! i = take n (drop k bs) ! i"
    using i assms by (simp add: copy_physical_def add.assoc)
qed

lemma map_physical_image:
  assumes "length bs < 2 ^ 64"
  shows "map_physical (image_mem base bs) base (of_nat (length bs)) = bs"
proof -
  have u: "unat (of_nat (length bs) :: u64) = length bs"
    using assms by (simp add: unat_of_nat)
  have "copy_physical (image_mem base bs) (base + of_nat 0) (length bs) = take (length bs) (drop 0 bs)"
    using assms by (intro copy_physical_image) simp_all
  then show ?thesis by (simp add: map_physical_def copy_physical_def u)
qed

lemma ntohl_load32:
  "ntohl e (load32 e bs i) = cat32 (bs ! i) (bs ! (i + 1)) (bs ! (i + 2)) (bs ! (i + 3))"
  by (cases e) (simp_all add: ntohl_def load32_def bswap32_cat32)

lemma load32_host_bytes: "load32 e (xs @ host_bytes e x) (length xs) = x"
  by (cases e) (simp_all add: load32_def host_bytes_def be_bytes_def cat32_bytes nth_append)

text \<open>
  C6. When memory holds, at \<open>top_of_space - 4\<close>, the four bytes of a 32-bit value
  \<open>delta\<close> in the host's byte order, and at \<open>top_of_space + delta\<close> (\<open>delta\<close> read as a
  signed number) the seven header fields in big-endian order followed by the reserved
  word, the header locator yields exactly the seven written values, whatever the host's
  byte order; the reserved word is left as the host reads it.
\<close>

theorem header_locator_recovers:
  assumes footer: "copy_physical m (top_of_space - 4) 4 = host_bytes e delta"
    and hdr: "copy_physical m (top_of_space + scast delta) 32 =
        be_bytes mg @ be_bytes ver @ be_bytes rs @ be_bytes bbs @ be_bytes al @ be_bytes ofs
          @ be_bytes arch @ host_bytes e pd"
  shows "fst (locate_header e m opts s) =
           \<lparr> h_magic = mg, h_version = ver, h_romsize = rs, h_bootblocksize = bbs,
             h_align = al, h_offset = ofs, h_architecture = arch, h_pad = pd \<rparr>
         \<and> uint (top_of_space + scast delta) = 4294967296 + sint delta"
proof -
  have d: "load32 e (copy_physical m (top_of_space - 4) 4) 0 = delta"
    using load32_host_bytes [of e "[]" delta] by (simp add: footer)
  let ?pre = "be_bytes mg @ be_bytes ver @ be_bytes rs @ be_bytes bbs @ be_bytes al @ be_bytes ofs
          @ be_bytes arch"
  have p: "load32 e (?pre @ host_bytes e pd) 28 = pd"
  proof -
    have "length ?pre = 28" by (simp add: be_bytes_def)
    then show ?thesis using load32_host_bytes [of e ?pre pd] by simp
  qed
  have f: "decode_header e (copy_physical m (top_of_space + scast delta) 32) =
      \<lparr> h_magic = mg, h_version = ver, h_romsize = rs, h_bootblocksize = bbs,
             h_align = al, h_offset = ofs, h_architecture = arch, h_pad = pd \<rparr>"
    unfolding hdr decode_header_def ntohl_load32
    using p by (simp add: be_bytes_def cat32_bytes)
  show ?thesis
    by (simp add: locate_header_def Let_def d f scast_addr)
qed

section \<open>One iteration\<close>

lemma err_fields [simp]:
  "off (err m s) = off s" "rom (err m s) = rom s" "do_read (err m s) = do_read s"
  "printed (err m s) = printed s" "written (err m s) = written s" "nwrites (err m s) = nwrites s"
  "errs (err m s) = errs s @ [m]"
  by (simp_all add: err_def)

lemma vlog_fields [simp]:
  "off (vlog opts m s) = off s" "rom (vlog opts m s) = rom s" "do_read (vlog opts m s) = do_read s"
  "printed (vlog opts m s) = printed s" "written (vlog opts m s) = written s"
  "nwrites (vlog opts m s) = nwrites s"
  by (simp_all add: vlog_def)

lemma seen_fields [simp]:
  "off (seen opts file name s) = off s" "rom (seen opts file name s) = rom s"
  "do_read (seen opts file name s) = do_read s" "written (seen opts file name s) = written s"
  "nwrites (seen opts file name s) = nwrites s"
  by (simp_all add: seen_def Let_def)

lemma printed_seen:
  "printed (seen opts file name s) =
     printed s @ (if do_list opts \<and> type_ok opts file then name @ [10] else [])"
  by (simp add: seen_def Let_def)

lemma strncmp_magic_self: "strncmp CBFS_FILE_MAGIC CBFS_FILE_MAGIC 8 = Eq"
  by (simp add: CBFS_FILE_MAGIC_def)

lemma strncmp_magic:
  assumes "length m = 8"
  shows "(strncmp m CBFS_FILE_MAGIC 8 = Eq) = (m = CBFS_FILE_MAGIC)"
proof -
  obtain a b c d e f g h where m: "m = [a, b, c, d, e, f, g, h]"
    using assms by (auto simp add: length_Suc_conv eval_nat_numeral)
  show ?thesis unfolding m CBFS_FILE_MAGIC_def by auto
qed

lemma length_magic_decode:
  "view_read view p 24 = Some bs \<Longrightarrow> length (f_magic (decode_file e bs)) = 8"
  by (auto simp add: view_read_def decode_file_def split: if_splits)

lemma step_decoded:
  assumes "view_read view (rom s) 24 = Some bs"
    and "f_magic (decode_file e bs) = CBFS_FILE_MAGIC"
    and "c_string view (rom s + 24) = Some name"
  shows "step e wr opts view align rom_end s =
    (case name_test opts (decode_file e bs) view (rom s + 24) (name_size (decode_file e bs))
            (seen opts (decode_file e bs) name s) of
       Oob \<Rightarrow> OutOfView (seen opts (decode_file e bs) name s)
     | Eq \<Rightarrow> extract_file wr opts view rom_end (decode_file e bs) (seen opts (decode_file e bs) name s)
     | Ne \<Rightarrow> Continue (advance opts align (decode_file e bs) (seen opts (decode_file e bs) name s)))"
  using assms
  by (simp add: step_def Let_def strncmp_magic_self log_name_def list_name_def seen_def vlog_def
      name_test_def split: cmp.split)

lemma step_sentinel:
  assumes "view_read view (rom s) 24 = Some bs"
    and "f_magic (decode_file e bs) \<noteq> CBFS_FILE_MAGIC"
  shows "step e wr opts view align rom_end s =
     Break (vlog opts (FileDump (decode_file e bs)) (vlog opts (PotentialFile (off s)) s))"
  using assms strncmp_magic [OF length_magic_decode [OF assms(1)], of e]
  by (simp add: step_def Let_def)

lemma strncmp_take:
  assumes "0 \<in> set s" "0 \<notin> set t"
  shows "strncmp s t n \<noteq> Oob \<and>
    (strncmp s t n = Eq) = (take n (takeWhile (\<lambda>c. c \<noteq> 0) s @ [0]) = take n (t @ [0]))"
  using assms
proof (induction s arbitrary: t n)
  case Nil
  then show ?case by simp
next
  case (Cons c s)
  show ?case
  proof (cases n)
    case 0
    then show ?thesis by simp
  next
    case (Suc k)
    show ?thesis
    proof (cases t)
      case Nil
      then show ?thesis using Suc by auto
    next
      case (Cons d t')
      show ?thesis
      proof (cases "c = d")
        case False
        then show ?thesis using Suc Cons Cons.prems by auto
      next
        case True
        then have "c \<noteq> 0" using Cons Cons.prems by auto
        then have "0 \<in> set s" "0 \<notin> set t'" using Cons.prems Cons by auto
        from Cons.IH [OF this, of k] show ?thesis
          using Suc Cons True \<open>c \<noteq> 0\<close> by simp
      qed
    qed
  qed
qed

lemma unat_ucast_u32 [simp]: "unat (ucast (x :: u32) :: u64) = unat x"
proof -
  have "unat x < 2 ^ 32" using unsigned_less [of x] by simp
  then have "unat x < (2 :: nat) ^ 64" by simp
  then show ?thesis by (simp add: unsigned_ucast_eq take_bit_nat_eq_self)
qed

lemma advance_fields [simp]:
  "off (advance opts align file s) = off s + ucast (increment align file)"
  "rom (advance opts align file s) = rom s + unat (increment align file)"
  "do_read (advance opts align file s) = do_read s"
  "printed (advance opts align file s) = printed s"
  "written (advance opts align file s) = written s"
  "nwrites (advance opts align file s) = nwrites s"
  by (simp_all add: advance_def Let_def)

lemma name_test_selected:
  assumes "c_string view p = Some name" "0 \<notin> set (filename opts)"
  shows "name_test opts file view p (name_size file) s =
     (if do_read s \<noteq> 0 \<and> selected opts \<lparr>e_file = file, e_name = name\<rparr> then Eq else Ne)"
proof -
  from assms(1) have z: "0 \<in> set (drop p view)" and n: "name = takeWhile (\<lambda>c. c \<noteq> 0) (drop p view)"
    by (auto simp add: c_string_def Let_def split: if_splits)
  from strncmp_take [OF z assms(2), of "unat (name_size file)"] show ?thesis
    by (cases "strncmp (drop p view) (filename opts) (unat (name_size file))")
       (auto simp add: name_test_def selected_def n)
qed

section \<open>Walking over records\<close>

lemma listing_Nil [simp]: "listing opts [] = []"
  by (simp add: listing_def)

lemma listing_Cons:
  "listing opts (r # rs) =
     (if type_ok opts (e_file r) then e_name r @ [10] else []) @ listing opts rs"
  by (simp add: listing_def)

lemma skip_records_Nil [simp]: "skip_records opts align s [] = s"
  by (simp add: skip_records_def)

lemma skip_records_Cons:
  "skip_records opts align s (r # rs) =
     skip_records opts align (advance opts align (e_file r) (seen opts (e_file r) (e_name r) s)) rs"
  by (simp add: skip_records_def)

lemma skip_records_fields [simp]:
  "do_read (skip_records opts align s rs) = do_read s"
  "written (skip_records opts align s rs) = written s"
  "nwrites (skip_records opts align s rs) = nwrites s"
  by (induction rs arbitrary: s) (simp_all add: skip_records_Cons)

lemma printed_skip_records:
  "printed (skip_records opts align s rs) =
     printed s @ (if do_list opts then listing opts rs else [])"
  by (induction rs arbitrary: s) (simp_all add: skip_records_Cons listing_Cons printed_seen)

lemma table_at_records_at:
  "table_at e view align rom_end a p rs \<Longrightarrow> records_at e view align rom_end a p rs"
  by (induction rs arbitrary: a p) (auto split: option.splits)

lemma records_at_append:
  "records_at e view align rom_end (off s) (rom s) (rs @ rs') =
     (records_at e view align rom_end (off s) (rom s) rs \<and>
      records_at e view align rom_end (off (skip_records opts align s rs))
        (rom (skip_records opts align s rs)) rs')"
proof (induction rs arbitrary: s)
  case Nil
  then show ?case by simp
next
  case (Cons r rs)
  let ?s1 = "advance opts align (e_file r) (seen opts (e_file r) (e_name r) s)"
  show ?case using Cons.IH [of ?s1]
    by (auto simp add: skip_records_Cons split: option.splits)
qed

lemma table_at_end:
  "table_at e view align rom_end (off s) (rom s) rs \<Longrightarrow>
     table_at e view align rom_end (off (skip_records opts align s rs))
        (rom (skip_records opts align s rs)) []"
proof (induction rs arbitrary: s)
  case Nil
  then show ?case by (simp only: skip_records_Nil)
next
  case (Cons r rs)
  let ?s1 = "advance opts align (e_file r) (seen opts (e_file r) (e_name r) s)"
  have "table_at e view align rom_end (off ?s1) (rom ?s1) rs"
    using Cons.prems by (auto split: option.splits)
  from Cons.IH [OF this] show ?case by (simp only: skip_records_Cons)
qed

lemma step_record:
  assumes t: "records_at e view align rom_end (off s) (rom s) (r # rs)"
    and n: "do_read s = 0 \<or> (0 \<notin> set (filename opts) \<and> \<not> selected opts r)"
  shows "step e wr opts view align rom_end s =
           Continue (advance opts align (e_file r) (seen opts (e_file r) (e_name r) s))"
proof -
  from t obtain bs where bs: "view_read view (rom s) 24 = Some bs"
    and d: "decode_file e bs = e_file r" and m: "f_magic (e_file r) = CBFS_FILE_MAGIC"
    and c: "c_string view (rom s + 24) = Some (e_name r)"
    by (auto split: option.splits)
  have r: "\<lparr>e_file = e_file r, e_name = e_name r\<rparr> = r" by simp
  have "name_test opts (e_file r) view (rom s + 24) (name_size (e_file r))
          (seen opts (e_file r) (e_name r) s) = Ne"
  proof (cases "do_read s = 0")
    case True
    then show ?thesis by (simp add: name_test_def)
  next
    case False
    with n have "0 \<notin> set (filename opts)" "\<not> selected opts r" by auto
    then show ?thesis by (simp add: name_test_selected [OF c] r)
  qed
  then show ?thesis
    using step_decoded [OF bs _ c, of e wr opts align rom_end] m by (simp add: d)
qed

lemma step_selected:
  assumes t: "records_at e view align rom_end (off s) (rom s) (r # rs)"
    and n: "do_read s \<noteq> 0" "0 \<notin> set (filename opts)" "selected opts r"
  shows "step e wr opts view align rom_end s =
           extract_file wr opts view rom_end (e_file r) (seen opts (e_file r) (e_name r) s)"
proof -
  from t obtain bs where bs: "view_read view (rom s) 24 = Some bs"
    and d: "decode_file e bs = e_file r" and m: "f_magic (e_file r) = CBFS_FILE_MAGIC"
    and c: "c_string view (rom s + 24) = Some (e_name r)"
    by (auto split: option.splits)
  have r: "\<lparr>e_file = e_file r, e_name = e_name r\<rparr> = r" by simp
  have "name_test opts (e_file r) view (rom s + 24) (name_size (e_file r))
          (seen opts (e_file r) (e_name r) s) = Eq"
    using n by (simp add: name_test_selected [OF c] r)
  then show ?thesis
    using step_decoded [OF bs _ c, of e wr opts align rom_end] m by (simp add: d)
qed

lemma extract_file_leave:
  "extract_file wr opts view rom_end file s \<noteq> Continue s'"
  by (simp add: extract_file_def Let_def split: option.splits prod.splits bool.splits)

lemma walk_leave:
  assumes "off s < rom_end" "step e wr opts view align rom_end s = f" "\<forall>s'. f \<noteq> Continue s'"
  shows "walk (Suc k) e wr opts view align rom_end s = leave f"
  using assms by (cases f) auto

lemma walk_records:
  assumes "records_at e view align rom_end (off s) (rom s) rs"
    and "do_read s = 0 \<or> (0 \<notin> set (filename opts) \<and> (\<forall>r\<in>set rs. \<not> selected opts r))"
  shows "walk (length rs + k) e wr opts view align rom_end s =
           walk k e wr opts view align rom_end (skip_records opts align s rs)"
  using assms
proof (induction rs arbitrary: s)
  case Nil
  then show ?case by simp
next
  case (Cons r rs)
  let ?s1 = "advance opts align (e_file r) (seen opts (e_file r) (e_name r) s)"
  from Cons.prems(1) have lt: "off s < rom_end" by simp
  have st: "step e wr opts view align rom_end s = Continue ?s1"
    using Cons.prems by (intro step_record) auto
  have t1: "records_at e view align rom_end (off ?s1) (rom ?s1) rs"
    using Cons.prems(1) by (auto split: option.splits)
  have n1: "do_read ?s1 = 0 \<or> (0 \<notin> set (filename opts) \<and> (\<forall>r\<in>set rs. \<not> selected opts r))"
    using Cons.prems(2) by auto
  have "walk (length (r # rs) + k) e wr opts view align rom_end s =
          walk (length rs + k) e wr opts view align rom_end ?s1"
    using lt st by simp
  also have "\<dots> = walk k e wr opts view align rom_end (skip_records opts align ?s1 rs)"
    by (rule Cons.IH [OF t1 n1])
  finally show ?case by (simp add: skip_records_Cons)
qed

lemma walk_table_end:
  assumes "table_at e view align rom_end (off s) (rom s) []"
  shows "\<exists>s'. walk (Suc k) e wr opts view align rom_end s = Some (Inl s') \<and>
           printed s' = printed s \<and> written s' = written s \<and> nwrites s' = nwrites s \<and>
           do_read s' = do_read s"
proof (cases "off s < rom_end")
  case False
  then show ?thesis by simp
next
  case True
  with assms obtain bs where bs: "view_read view (rom s) 24 = Some bs"
    and m: "f_magic (decode_file e bs) \<noteq> CBFS_FILE_MAGIC"
    by (auto split: option.splits)
  show ?thesis using True by (simp add: step_sentinel [OF bs m])
qed

lemma walk_table:
  assumes t: "table_at e view align rom_end (off s) (rom s) rs"
    and n: "do_read s = 0 \<or> (0 \<notin> set (filename opts) \<and> (\<forall>r\<in>set rs. \<not> selected opts r))"
  shows "\<exists>s'. walk (Suc (length rs + k)) e wr opts view align rom_end s = Some (Inl s') \<and>
           printed s' = printed s @ (if do_list opts then listing opts rs else []) \<and>
           written s' = written s \<and> nwrites s' = nwrites s \<and> do_read s' = do_read s"
proof -
  have "walk (length rs + Suc k) e wr opts view align rom_end s =
          walk (Suc k) e wr opts view align rom_end (skip_records opts align s rs)"
    using table_at_records_at [OF t] n by (rule walk_records)
  moreover from walk_table_end [OF table_at_end [OF t], of k wr opts] obtain s' where
    "walk (Suc k) e wr opts view align rom_end (skip_records opts align s rs) = Some (Inl s')"
    "printed s' = printed (skip_records opts align s rs)"
    "written s' = written s" "nwrites s' = nwrites s" "do_read s' = do_read s"
    by auto
  ultimately show ?thesis by (auto simp add: printed_skip_records)
qed

section \<open>The example image as the program sees it\<close>

lemma footer_demo: "copy_physical demo_mem (top_of_space - 4) 4 = [0xC0, 0xFF, 0xFF, 0xFF]"
proof -
  have "copy_physical (image_mem 0xFFFFFF00 demo_rom) (0xFFFFFF00 + of_nat 252) 4 =
          take 4 (drop 252 demo_rom)"
    by (rule copy_physical_image) (simp_all add: length_demo_rom)
  then show ?thesis by (simp add: demo_mem_def top_of_space_def demo_rom_def)
qed

lemma header_bytes_demo:
  "copy_physical demo_mem 0xFFFFFFC0 32 =
     [0x4F, 0x52, 0x42, 0x43, 0x31, 0x31, 0x31, 0x32, 0, 0, 1, 0, 0, 0, 0, 0x40,
      0, 0, 0, 0x40, 0, 0, 0, 0, 0, 0, 0, 1, 0, 0, 0, 0]"
proof -
  have "copy_physical (image_mem 0xFFFFFF00 demo_rom) (0xFFFFFF00 + of_nat 192) 32 =
          take 32 (drop 192 demo_rom)"
    by (rule copy_physical_image) (simp_all add: length_demo_rom)
  then show ?thesis by (simp add: demo_mem_def demo_rom_def)
qed

lemma view_demo: "map_physical demo_mem 0xFFFFFF00 0x100 = demo_rom"
  using map_physical_image [of demo_rom "0xFFFFFF00"]
  by (simp add: length_demo_rom demo_mem_def)

lemma locate_header_demo:
  "verbose opts = 0 \<Longrightarrow> locate_header LittleEndian demo_mem opts s = (demo_header, s)"
proof -
  assume v: "verbose opts = 0"
  have d: "load32 LittleEndian (copy_physical demo_mem (top_of_space - 4) 4) 0 = 0xFFFFFFC0"
    by (simp add: footer_demo load32_def cat32_def)
  have h: "decode_header LittleEndian (copy_physical demo_mem (top_of_space - 64) 32) = demo_header"
    by (simp add: top_of_space_def header_bytes_demo decode_header_def load32_def ntohl_def bswap32_def cat32_def
        demo_header_def)
  show ?thesis by (simp add: locate_header_def Let_def vlog_def v d h)
qed

lemma cbfs_demo:
  "verbose opts = 0 \<Longrightarrow>
     cbfs n LittleEndian demo_mem wr opts s =
       run_loop n LittleEndian wr opts demo_rom 64 top_of_space (s\<lparr>off := 0xFFFFFF00, rom := 0\<rparr>)"
  by (simp add: cbfs_def locate_header_demo walk_image_def Let_def)
     (simp add: demo_header_def CBFS_HEADER_MAGIC_def top_of_space_def view_demo)

lemma table_at_demo:
  "table_at LittleEndian demo_rom 64 top_of_space 0xFFFFFF00 0 [bootblock, config]"
  by (simp add: demo_rom_def top_of_space_def view_read_def decode_file_def ntohl_load32 cat32_def
      bootblock_def config_def CBFS_FILE_MAGIC_def c_string_def increment_def)

lemma type_ok_no_filter [simp]: "\<not> do_type opts \<Longrightarrow> type_ok opts file"
  by (simp add: type_ok_def)

section \<open>Read mode without a match\<close>

lemma run_loop_demo_main:
  "main n LittleEndian demo_mem wr st 2 prog [(CHR ''r'', name)] 0 =
     run_loop n LittleEndian wr (read_opts name) demo_rom 64 top_of_space
       (init_state\<lparr>do_read := 1, off := 0xFFFFFF00, rom := 0\<rparr>)"
  by (simp add: main_def cbfs_demo no_options_def read_opts_def)

lemma main_demo_list:
  "main n LittleEndian demo_mem wr st 2 prog [(CHR ''l'', [])] 0 =
     run_loop n LittleEndian wr list_opts demo_rom 64 top_of_space
       (init_state\<lparr>do_read := 0, off := 0xFFFFFF00, rom := 0\<rparr>)"
  by (simp add: main_def cbfs_demo no_options_def list_opts_def)

text \<open>
  C7. Over a view that holds a table \<open>rs\<close> (ended by bytes whose magic differs from
  \<^verbatim>\<open>"LARCHIVE"\<close> or by the end of the region): in read mode, when no record matches, the
  program exits with failure and the last thing on \<^verbatim>\<open>stderr\<close> is the message that names
  the requested file; when no read is requested, the program exits with success. In both
  cases what list mode printed for the records stays printed, and nothing was written
  as payload.
\<close>

theorem not_found_and_sentinel:
  assumes "table_at e view align rom_end (off s) (rom s) rs"
  shows "(do_read s = 1 \<and> 0 \<notin> set (filename opts) \<and> (\<forall>r\<in>set rs. \<not> selected opts r) \<longrightarrow>
            (\<exists>s'. run_loop (Suc (length rs + k)) e wr opts view align rom_end s
                    = Some (Exit EXIT_FAILURE s') \<and>
                  last (errs s') = NotFound (filename opts) \<and>
                  printed s' = printed s @ (if do_list opts then listing opts rs else []) \<and>
                  written s' = written s)) \<and>
         (do_read s = 0 \<longrightarrow>
            (\<exists>s'. run_loop (Suc (length rs + k)) e wr opts view align rom_end s
                    = Some (Exit EXIT_SUCCESS s') \<and>
                  printed s' = printed s @ (if do_list opts then listing opts rs else []) \<and>
                  written s' = written s))"
proof (intro conjI impI)
  assume a: "do_read s = 1 \<and> 0 \<notin> set (filename opts) \<and> (\<forall>r\<in>set rs. \<not> selected opts r)"
  from walk_table [OF assms, of opts k wr] a obtain s' where
    w: "walk (Suc (length rs + k)) e wr opts view align rom_end s = Some (Inl s')"
    and p: "printed s' = printed s @ (if do_list opts then listing opts rs else [])"
    and o: "written s' = written s" "do_read s' = do_read s"
    by auto
  let ?s = "err (NotFound (filename opts)) s'"
  have "run_loop (Suc (length rs + k)) e wr opts view align rom_end s = Some (Exit EXIT_FAILURE ?s)"
    using w o a by (simp add: run_loop_def after_loop_def)
  then show "\<exists>s'. run_loop (Suc (length rs + k)) e wr opts view align rom_end s
                    = Some (Exit EXIT_FAILURE s') \<and>
                  last (errs s') = NotFound (filename opts) \<and>
                  printed s' = printed s @ (if do_list opts then listing opts rs else []) \<and>
                  written s' = written s"
    using p o by (intro exI [of _ ?s]) simp
next
  assume a: "do_read s = 0"
  from walk_table [OF assms, of opts k wr] a obtain s' where
    w: "walk (Suc (length rs + k)) e wr opts view align rom_end s = Some (Inl s')"
    and p: "printed s' = printed s @ (if do_list opts then listing opts rs else [])"
    and o: "written s' = written s" "do_read s' = do_read s"
    by auto
  have "run_loop (Suc (length rs + k)) e wr opts view align rom_end s = Some (Exit EXIT_SUCCESS s')"
    using w o a by (simp add: run_loop_def after_loop_def)
  then show "\<exists>s'. run_loop (Suc (length rs + k)) e wr opts view align rom_end s
                    = Some (Exit EXIT_SUCCESS s') \<and>
                  printed s' = printed s @ (if do_list opts then listing opts rs else []) \<and>
                  written s' = written s"
    using p o by (intro exI [of _ s']) simp
qed

lemma not_selected_demo:
  "\<not> selected (read_opts nofile) bootblock" "\<not> selected (read_opts nofile) config"
  by (simp_all add: selected_def read_opts_def no_options_def nofile_def bootblock_def config_def
      name_size_def)

lemma not_selected_type:
  "\<not> selected ((read_opts (e_name bootblock))\<lparr>do_type := True, cbfs_file_type := 0x20\<rparr>) bootblock"
  "\<not> selected ((read_opts (e_name bootblock))\<lparr>do_type := True, cbfs_file_type := 0x20\<rparr>) config"
  by (simp_all add: selected_def type_ok_def read_opts_def no_options_def bootblock_def config_def)

text \<open>
  The example image run as \<^verbatim>\<open>cbfs -r nofile\<close>, as \<^verbatim>\<open>cbfs -l\<close> and as
  \<^verbatim>\<open>cbfs -t 20 -r bootblock\<close>: the type of \<^verbatim>\<open>bootblock\<close> is \<open>0x10\<close>.
\<close>

theorem not_found_and_sentinel_witness:
  "(\<exists>s'. main 3 LittleEndian demo_mem wr_one strtoul_zero 2 [] [(CHR ''r'', nofile)] 0
            = Some (Exit EXIT_FAILURE s') \<and>
          last (errs s') = NotFound nofile \<and> printed s' = [] \<and> written s' = []) \<and>
   (\<exists>s'. main 3 LittleEndian demo_mem wr_one strtoul_zero 2 [] [(CHR ''l'', [])] 0
            = Some (Exit EXIT_SUCCESS s') \<and>
          printed s' = [0x62, 0x6F, 0x6F, 0x74, 0x62, 0x6C, 0x6F, 0x63, 0x6B, 10,
                        0x63, 0x6F, 0x6E, 0x66, 0x69, 0x67, 10] \<and> written s' = []) \<and>
   (\<exists>s'. main 3 LittleEndian demo_mem wr_one (strtoul_of 0x20) 5 []
            [(CHR ''t'', [0x32, 0x30]), (CHR ''r'', e_name bootblock)] 0
            = Some (Exit EXIT_FAILURE s') \<and>
          last (errs s') = NotFound (e_name bootblock) \<and> printed s' = [] \<and> written s' = [])"
proof -
  let ?r = "init_state\<lparr>do_read := 1, off := 0xFFFFFF00, rom := 0\<rparr>"
  let ?l = "init_state\<lparr>do_read := 0, off := 0xFFFFFF00, rom := 0\<rparr>"
  let ?t = "(read_opts (e_name bootblock))\<lparr>do_type := True, cbfs_file_type := 0x20\<rparr>"
  have n: "Suc (length [bootblock, config] + 0) = 3" by simp
  have tr: "table_at LittleEndian demo_rom 64 top_of_space (off ?r) (rom ?r) [bootblock, config]"
    using table_at_demo by simp
  have tl: "table_at LittleEndian demo_rom 64 top_of_space (off ?l) (rom ?l) [bootblock, config]"
    using table_at_demo by simp
  have f: "0 \<notin> set (filename (read_opts nofile))" "filename (read_opts nofile) = nofile"
    "\<not> do_list (read_opts nofile)" "do_list list_opts" "\<not> do_type list_opts"
    "0 \<notin> set (filename ?t)" "filename ?t = e_name bootblock" "\<not> do_list ?t"
    by (simp_all add: read_opts_def no_options_def nofile_def list_opts_def bootblock_def)
  have a: "\<exists>s'. run_loop 3 LittleEndian wr_one (read_opts nofile) demo_rom 64 top_of_space ?r
                  = Some (Exit EXIT_FAILURE s') \<and>
          last (errs s') = NotFound nofile \<and> printed s' = [] \<and> written s' = []"
    using not_found_and_sentinel [OF tr, of "read_opts nofile" 0 wr_one] not_selected_demo f
    unfolding n by (simp add: init_state_def)
  have b: "\<exists>s'. run_loop 3 LittleEndian wr_one list_opts demo_rom 64 top_of_space ?l
                  = Some (Exit EXIT_SUCCESS s') \<and>
          printed s' = listing list_opts [bootblock, config] \<and> written s' = []"
    using not_found_and_sentinel [OF tl, of list_opts 0 wr_one] f
    unfolding n by (simp add: init_state_def)
  have c: "\<exists>s'. run_loop 3 LittleEndian wr_one ?t demo_rom 64 top_of_space ?r
                  = Some (Exit EXIT_FAILURE s') \<and>
          last (errs s') = NotFound (e_name bootblock) \<and> printed s' = [] \<and> written s' = []"
    using not_found_and_sentinel [OF tr, of ?t 0 wr_one] not_selected_type f
    unfolding n by (simp add: init_state_def)
  have l: "listing list_opts [bootblock, config] =
      [0x62, 0x6F, 0x6F, 0x74, 0x62, 0x6C, 0x6F, 0x63, 0x6B, 10,
       0x63, 0x6F, 0x6E, 0x66, 0x69, 0x67, 10]"
    using f by (simp add: listing_def bootblock_def config_def)
  have m: "main 3 LittleEndian demo_mem wr_one (strtoul_of 0x20) 5 []
            [(CHR ''t'', [0x32, 0x30]), (CHR ''r'', e_name bootblock)] 0 =
      run_loop 3 LittleEndian wr_one ?t demo_rom 64 top_of_space ?r"
    by (simp add: main_def cbfs_demo no_options_def read_opts_def strtoul_of_def)
  show ?thesis using a b c unfolding run_loop_demo_main main_demo_list l m by blast
qed

section \<open>The write loop\<close>



lemma write_loop_done:
  "\<not> offset < length data \<Longrightarrow> write_loop wr data offset s = (s, True)"
  by (subst write_loop.simps) simp


lemma write_loop_step:
  "offset < length data \<Longrightarrow> \<not> write_rc wr (nwrites s) (length data - offset) \<le> 0 \<Longrightarrow>
     write_loop wr data offset s =
       write_loop wr data (offset + nat (write_rc wr (nwrites s) (length data - offset)))
         (s\<lparr>written := written s @
                 take (nat (write_rc wr (nwrites s) (length data - offset))) (drop offset data),
            nwrites := nwrites s + 1\<rparr>)"
  by (subst write_loop.simps) (simp add: Let_def)





section \<open>Extraction\<close>

lemma unat_u32_bound: "unat (x :: u32) < 4294967296"
  using unsigned_less [of x, where 'a = nat] by simp

lemma unat_top_of_space: "unat top_of_space = 4294967296"
  by (simp add: top_of_space_def)

lemma unat_file_end:
  assumes "off s < top_of_space"
  shows "unat (off s + ucast (f_offset file) + ucast (f_len file)) =
           unat (off s) + unat (f_offset file) + unat (f_len file)"
proof -
  have a: "unat (off s) < 4294967296"
    using assms by (simp add: word_less_nat_alt unat_top_of_space)
  have b: "unat (f_offset file) < 4294967296" "unat (f_len file) < 4294967296"
    by (rule unat_u32_bound)+
  have "unat (off s) + unat (ucast (f_offset file) :: u64) < 2 ^ 64" using a b by simp
  then have 1: "unat (off s + ucast (f_offset file)) = unat (off s) + unat (f_offset file)"
    by (simp add: unat_add_lem [THEN iffD1])
  have "unat (off s + ucast (f_offset file)) + unat (ucast (f_len file) :: u64) < 2 ^ 64"
    using a b 1 by simp
  then show ?thesis using 1 by (simp add: unat_add_lem [THEN iffD1])
qed

lemma beyond_rom_iff:
  assumes "off s < top_of_space"
  shows "(off s + ucast (f_offset file) + ucast (f_len file) > top_of_space) =
           (unat (off s) + unat (f_offset file) + unat (f_len file) > unat top_of_space)"
  by (simp add: word_less_nat_alt unat_file_end [OF assms])

lemma payload_read:
  assumes "cursor_ok view top_of_space s"
    and "unat (off s) + unat (f_offset file) + unat (f_len file) \<le> unat top_of_space"
  shows "view_read view (rom s + unat (f_offset file)) (unat (f_len file)) =
           Some (take (unat (f_len file)) (drop (rom s + unat (f_offset file)) view)) \<and>
         length (take (unat (f_len file)) (drop (rom s + unat (f_offset file)) view)) =
           unat (f_len file)"
  using assms by (simp add: cursor_ok_def view_read_def)



section \<open>The first match\<close>

text \<open>
  C1. In read mode, with the records \<open>rs\<close> followed by the record \<open>r\<close> at the cursor and
  no record of \<open>rs\<close> selected: a record is selected when it passes the type filter and
  its name and the requested name agree on the first \<^verbatim>\<open>file.offset - 24\<close> bytes (the count
  comes from the record, and a terminator ends the comparison); when \<open>r\<close> is selected the
  loop ends in the iteration that reaches it, with what \<open>extract_file\<close> yields, whatever
  follows \<open>r\<close> in the view and however much fuel is left; when it is not, the loop goes
  on behind \<open>r\<close>.
\<close>

theorem first_match_extracts:
  assumes r: "records_at e view align rom_end (off s) (rom s) (rs @ [r])"
    and d: "do_read s \<noteq> 0" and f: "0 \<notin> set (filename opts)"
    and n: "\<forall>x\<in>set rs. \<not> selected opts x"
  shows "selected opts r =
           (type_ok opts (e_file r) \<and>
            take (unat (ucast (f_offset (e_file r)) - 24 :: u64)) (e_name r @ [0]) =
              take (unat (ucast (f_offset (e_file r)) - 24 :: u64)) (filename opts @ [0])) \<and>
         (selected opts r \<longrightarrow>
            walk (Suc (length rs + k)) e wr opts view align rom_end s =
              leave (extract_file wr opts view rom_end (e_file r)
                (seen opts (e_file r) (e_name r) (skip_records opts align s rs))) \<and>
            leave (extract_file wr opts view rom_end (e_file r)
                (seen opts (e_file r) (e_name r) (skip_records opts align s rs))) \<noteq> None) \<and>
         (\<not> selected opts r \<longrightarrow>
            walk (Suc (length rs + k)) e wr opts view align rom_end s =
              walk k e wr opts view align rom_end (skip_records opts align s (rs @ [r])))"
proof (intro conjI impI)
  show "selected opts r =
           (type_ok opts (e_file r) \<and>
            take (unat (ucast (f_offset (e_file r)) - 24 :: u64)) (e_name r @ [0]) =
              take (unat (ucast (f_offset (e_file r)) - 24 :: u64)) (filename opts @ [0]))"
    by (simp add: selected_def name_size_def)
next
  let ?s1 = "skip_records opts align s rs"
  let ?x = "extract_file wr opts view rom_end (e_file r) (seen opts (e_file r) (e_name r) ?s1)"
  have r1: "records_at e view align rom_end (off s) (rom s) rs"
    and r2: "records_at e view align rom_end (off ?s1) (rom ?s1) [r]"
    using r by (simp_all add: records_at_append [of _ _ _ _ _ _ _ opts])
  have w: "walk (length rs + Suc k) e wr opts view align rom_end s =
             walk (Suc k) e wr opts view align rom_end ?s1"
    using r1 f n by (intro walk_records) auto
  have lt: "off ?s1 < rom_end" using r2 by simp
  {
    assume sel: "selected opts r"
    have "step e wr opts view align rom_end ?s1 = ?x"
      using step_selected [OF r2 _ f sel, of wr] d by simp
    then have "walk (Suc k) e wr opts view align rom_end ?s1 = leave ?x"
      using lt by (intro walk_leave) (simp_all add: extract_file_leave)
    then show "walk (Suc (length rs + k)) e wr opts view align rom_end s = leave ?x"
      using w by simp
    show "leave ?x \<noteq> None"
      using extract_file_leave [of wr opts view rom_end "e_file r"] by (cases ?x) simp_all
  }
  {
    assume "\<not> selected opts r"
    then have "walk (length (rs @ [r]) + k) e wr opts view align rom_end s =
                 walk k e wr opts view align rom_end (skip_records opts align s (rs @ [r]))"
      using r f n by (intro walk_records) auto
    then show "walk (Suc (length rs + k)) e wr opts view align rom_end s =
                 walk k e wr opts view align rom_end (skip_records opts align s (rs @ [r]))"
      by simp
  }
qed

lemma records_at_short:
  "records_at LittleEndian short_rom 64 top_of_space (off at_short) (rom at_short) ([] @ [short_entry])"
  by (simp add: short_rom_def top_of_space_def view_read_def decode_file_def ntohl_load32 cat32_def
      short_entry_def CBFS_FILE_MAGIC_def c_string_def at_short_def init_state_def)

lemma selected_short: "selected (read_opts bootloader) short_entry"
  by (simp add: selected_def read_opts_def no_options_def bootloader_def short_entry_def
      name_size_def)

lemma extract_short:
  "extract_file wr_one (read_opts bootloader) short_rom top_of_space (e_file short_entry)
     (seen (read_opts bootloader) (e_file short_entry) (e_name short_entry)
        (skip_records (read_opts bootloader) 64 at_short [])) =
   Break (at_short\<lparr>written := [0x58], nwrites := 1, do_read := 2\<rparr>)"
  by (simp add: extract_file_def Let_def seen_def vlog_def read_opts_def no_options_def
      at_short_def init_state_def short_entry_def top_of_space_def view_read_def short_rom_def
      write_loop_step write_loop_done write_rc_def wr_one_def)

lemma records_at_demo_read:
  "records_at LittleEndian demo_rom 64 top_of_space
     (off (init_state\<lparr>off := 0xFFFFFF00, do_read := 1\<rparr>))
     (rom (init_state\<lparr>off := 0xFFFFFF00, do_read := 1\<rparr>)) ([bootblock] @ [config])"
  using table_at_records_at [OF table_at_demo] by (simp add: init_state_def)

lemma selected_config:
  "\<not> selected (read_opts (e_name config)) bootblock" "selected (read_opts (e_name config)) config"
  by (simp_all add: selected_def read_opts_def no_options_def bootblock_def config_def
      name_size_def)

lemma skip_bootblock:
  "skip_records (read_opts (e_name config)) 64 (init_state\<lparr>off := 0xFFFFFF00, do_read := 1\<rparr>)
     [bootblock] = at_config"
  by (simp add: skip_records_def advance_def seen_def Let_def vlog_def read_opts_def no_options_def
      init_state_def at_config_def bootblock_def increment_def)

lemma extract_config:
  "extract_file wr_one (read_opts (e_name config)) demo_rom top_of_space (e_file config)
     (seen (read_opts (e_name config)) (e_file config) (e_name config) at_config) =
   Break (at_config\<lparr>written := [0xCA, 0xFE], nwrites := 2, do_read := 2\<rparr>)"
  by (simp add: extract_file_def Let_def seen_def vlog_def read_opts_def no_options_def
      at_config_def init_state_def config_def top_of_space_def view_read_def demo_rom_def
      write_loop_step write_loop_done write_rc_def wr_one_def)

text \<open>
  The request \<^verbatim>\<open>-r bootloader\<close> selects the record whose four-byte name field holds
  \<^verbatim>\<open>boot\<close>, and its one byte of data is written. On the example image the request
  \<^verbatim>\<open>-r config\<close> passes over \<^verbatim>\<open>bootblock\<close> and writes the two bytes of \<^verbatim>\<open>config\<close> in the
  second iteration, with fuel to spare.
\<close>

theorem first_match_extracts_witness:
  "selected (read_opts bootloader) short_entry \<and>
   walk 1 LittleEndian wr_one (read_opts bootloader) short_rom 64 top_of_space at_short =
     Some (Inl (at_short\<lparr>written := [0x58], nwrites := 1, do_read := 2\<rparr>)) \<and>
   walk 3 LittleEndian wr_one (read_opts (e_name config)) demo_rom 64 top_of_space
       (init_state\<lparr>off := 0xFFFFFF00, do_read := 1\<rparr>) =
     Some (Inl (at_config\<lparr>written := [0xCA, 0xFE], nwrites := 2, do_read := 2\<rparr>))"
proof -
  have d: "do_read at_short \<noteq> 0" by (simp add: at_short_def)
  have f: "0 \<notin> set (filename (read_opts bootloader))"
    by (simp add: read_opts_def no_options_def bootloader_def)
  have n: "\<forall>x\<in>set []. \<not> selected (read_opts bootloader) x" by simp
  from first_match_extracts [OF records_at_short d f n, of 0 wr_one, THEN conjunct2,
      THEN conjunct1, rule_format, OF selected_short]
  have "walk (Suc (length ([] :: entry list) + 0)) LittleEndian wr_one (read_opts bootloader)
          short_rom 64 top_of_space at_short =
        leave (extract_file wr_one (read_opts bootloader) short_rom top_of_space
          (e_file short_entry)
          (seen (read_opts bootloader) (e_file short_entry) (e_name short_entry)
             (skip_records (read_opts bootloader) 64 at_short [])))"
    by (rule conjunct1)
  then have "walk (Suc (length ([] :: entry list) + 0)) LittleEndian wr_one
      (read_opts bootloader) short_rom 64 top_of_space at_short =
        Some (Inl (at_short\<lparr>written := [0x58], nwrites := 1, do_read := 2\<rparr>))"
    by (simp only: extract_short leave.simps)
  then have a: "walk 1 LittleEndian wr_one (read_opts bootloader) short_rom 64 top_of_space
      at_short = Some (Inl (at_short\<lparr>written := [0x58], nwrites := 1, do_read := 2\<rparr>))"
    by (simp del: walk.simps)
  let ?s = "init_state\<lparr>off := 0xFFFFFF00, do_read := 1\<rparr>"
  let ?o = "read_opts (e_name config)"
  have d': "do_read ?s \<noteq> 0" by simp
  have f': "0 \<notin> set (filename ?o)"
    by (simp add: read_opts_def no_options_def config_def)
  have n': "\<forall>x\<in>set [bootblock]. \<not> selected ?o x" using selected_config(1) by simp
  from first_match_extracts [OF records_at_demo_read d' f' n', of 1 wr_one, THEN conjunct2,
      THEN conjunct1, rule_format, OF selected_config(2)]
  have "walk (Suc (length [bootblock] + 1)) LittleEndian wr_one ?o demo_rom 64 top_of_space ?s =
        leave (extract_file wr_one ?o demo_rom top_of_space (e_file config)
          (seen ?o (e_file config) (e_name config) (skip_records ?o 64 ?s [bootblock])))"
    by (rule conjunct1)
  then have "walk (Suc (length [bootblock] + 1)) LittleEndian wr_one ?o demo_rom 64 top_of_space ?s =
        Some (Inl (at_config\<lparr>written := [0xCA, 0xFE], nwrites := 2, do_read := 2\<rparr>))"
    by (simp only: skip_bootblock extract_config leave.simps)
  moreover have "Suc (length [bootblock] + 1) = 3" by simp
  ultimately have b: "walk 3 LittleEndian wr_one ?o demo_rom 64 top_of_space ?s =
        Some (Inl (at_config\<lparr>written := [0xCA, 0xFE], nwrites := 2, do_read := 2\<rparr>))"
    by (simp only:)
  show ?thesis using selected_short a b by (intro conjI)
qed

section \<open>List mode\<close>

lemma main_demo_list_read:
  "main n LittleEndian demo_mem wr st 4 prog [(CHR ''l'', []), (CHR ''r'', name)] 0 =
     run_loop n LittleEndian wr (list_read_opts name) demo_rom 64 top_of_space
       (init_state\<lparr>do_read := 1, off := 0xFFFFFF00, rom := 0\<rparr>)"
  by (simp add: main_def cbfs_demo no_options_def list_read_opts_def)

lemma selected_list_read_bootblock: "selected (list_read_opts (e_name bootblock)) bootblock"
  by (simp add: selected_def type_ok_def list_read_opts_def no_options_def)

lemma extract_list_read_bootblock:
  "extract_file wr_one (list_read_opts (e_name bootblock)) demo_rom top_of_space (e_file bootblock)
     (seen (list_read_opts (e_name bootblock)) (e_file bootblock) (e_name bootblock)
        (init_state\<lparr>do_read := 1, off := 0xFFFFFF00, rom := 0\<rparr>)) =
   Break (init_state\<lparr>off := 0xFFFFFF00, do_read := 2,
            printed := [0x62, 0x6F, 0x6F, 0x74, 0x62, 0x6C, 0x6F, 0x63, 0x6B, 10],
            written := [0xDE, 0xAD, 0xBE, 0xEF], nwrites := 4\<rparr>)"
  by (simp add: extract_file_def Let_def seen_def vlog_def list_read_opts_def no_options_def
      init_state_def bootblock_def top_of_space_def view_read_def demo_rom_def type_ok_def
      write_loop_step write_loop_done write_rc_def wr_one_def)

lemma not_selected_list_read:
  "\<not> selected (list_read_opts nofile) bootblock" "\<not> selected (list_read_opts nofile) config"
  by (simp_all add: selected_def list_read_opts_def no_options_def nofile_def bootblock_def
      config_def name_size_def)

text \<open>
  C8, amended. In list mode, over a view that holds a table of \<open>N\<close> records \<open>rs\<close>, when no
  read is requested or the requested name selects none of the records: the loop ends
  within \<open>N + 1\<close> iterations and the program exits having printed, in table order, the
  name of every record followed by a newline when no type filter is set, and with a type
  filter the names of exactly the records whose type equals \<^verbatim>\<open>cbfs_file_type\<close>. Nothing is
  written as payload; the exit status is failure when \<^verbatim>\<open>do_read\<close> is 1 (the requested
  file was not found) and success otherwise.
\<close>

theorem list_mode_prints_names:
  assumes "table_at e view align rom_end (off s) (rom s) rs"
    and "do_list opts"
    and "do_read s = 0 \<or> (0 \<notin> set (filename opts) \<and> (\<forall>r\<in>set rs. \<not> selected opts r))"
  shows "\<exists>s'. run_loop (Suc (length rs + k)) e wr opts view align rom_end s
                 = Some (Exit (if do_read s = 1 then EXIT_FAILURE else EXIT_SUCCESS) s') \<and>
           written s' = written s \<and>
           (\<not> do_type opts \<longrightarrow>
              printed s' = printed s @ concat (map (\<lambda>r. e_name r @ [10]) rs)) \<and>
           (do_type opts \<longrightarrow>
              printed s' = printed s @ concat (map (\<lambda>r. e_name r @ [10])
                (filter (\<lambda>r. f_type (e_file r) = cbfs_file_type opts) rs)))"
proof -
  from walk_table [OF assms(1) assms(3), of k wr] obtain s' where
    w: "walk (Suc (length rs + k)) e wr opts view align rom_end s = Some (Inl s')"
    and p: "printed s' = printed s @ (if do_list opts then listing opts rs else [])"
    and o: "written s' = written s" "do_read s' = do_read s"
    by auto
  let ?s = "if do_read s = 1 then err (NotFound (filename opts)) s' else s'"
  have r: "run_loop (Suc (length rs + k)) e wr opts view align rom_end s =
             Some (Exit (if do_read s = 1 then EXIT_FAILURE else EXIT_SUCCESS) ?s)"
    using w o by (simp add: run_loop_def after_loop_def)
  have q: "printed ?s = printed s' \<and> written ?s = written s'" by simp
  have n: "\<not> do_type opts \<Longrightarrow> listing opts rs = concat (map (\<lambda>r. e_name r @ [10]) rs)"
    by (simp add: listing_def)
  have y: "do_type opts \<Longrightarrow> listing opts rs = concat (map (\<lambda>r. e_name r @ [10])
                (filter (\<lambda>r. f_type (e_file r) = cbfs_file_type opts) rs))"
    by (simp add: listing_def type_ok_def)
  show ?thesis using r p o(1) assms(2) n y q by (intro exI [of _ ?s]) auto
qed

text \<open>
  As stated, C8 fails. The example image holds a table of two records, \<^verbatim>\<open>bootblock\<close> and
  \<^verbatim>\<open>config\<close>. Run as \<^verbatim>\<open>cbfs -l -r bootblock\<close> with no type filter, the program is in list
  mode and prints one name, not two: the first record is listed, it matches the
  requested name, its four bytes are written and the \<^verbatim>\<open>break\<close> of line 242 leaves the
  loop before \<^verbatim>\<open>config\<close> is decoded.
\<close>

theorem list_mode_prints_names_counterexample:
  "table_at LittleEndian demo_rom 64 top_of_space 0xFFFFFF00 0 [bootblock, config] \<and>
   main 3 LittleEndian demo_mem wr_one strtoul_zero 4 []
       [(CHR ''l'', []), (CHR ''r'', [0x62, 0x6F, 0x6F, 0x74, 0x62, 0x6C, 0x6F, 0x63, 0x6B])] 0 =
     Some (Exit EXIT_SUCCESS
       (init_state\<lparr>off := 0xFFFFFF00, do_read := 2,
          printed := [0x62, 0x6F, 0x6F, 0x74, 0x62, 0x6C, 0x6F, 0x63, 0x6B, 10],
          written := [0xDE, 0xAD, 0xBE, 0xEF], nwrites := 4\<rparr>))"
proof -
  let ?s = "init_state\<lparr>do_read := 1, off := 0xFFFFFF00, rom := 0\<rparr>"
  let ?o = "list_read_opts (e_name bootblock)"
  have nm: "[0x62, 0x6F, 0x6F, 0x74, 0x62, 0x6C, 0x6F, 0x63, 0x6B] = e_name bootblock"
    by (simp add: bootblock_def)
  have t: "table_at LittleEndian demo_rom 64 top_of_space (off ?s) (rom ?s) [bootblock, config]"
    using table_at_demo by simp
  have d: "do_read ?s \<noteq> 0" "0 \<notin> set (filename ?o)" "off ?s < top_of_space"
    by (simp_all add: list_read_opts_def no_options_def bootblock_def top_of_space_def)
  have st: "step LittleEndian wr_one ?o demo_rom 64 top_of_space ?s =
      Break (init_state\<lparr>off := 0xFFFFFF00, do_read := 2,
            printed := [0x62, 0x6F, 0x6F, 0x74, 0x62, 0x6C, 0x6F, 0x63, 0x6B, 10],
            written := [0xDE, 0xAD, 0xBE, 0xEF], nwrites := 4\<rparr>)"
    using step_selected [OF table_at_records_at [OF t] d(1) d(2) selected_list_read_bootblock,
        of wr_one]
    by (simp only: extract_list_read_bootblock)
  have w: "walk (Suc 2) LittleEndian wr_one ?o demo_rom 64 top_of_space ?s =
      Some (Inl (init_state\<lparr>off := 0xFFFFFF00, do_read := 2,
            printed := [0x62, 0x6F, 0x6F, 0x74, 0x62, 0x6C, 0x6F, 0x63, 0x6B, 10],
            written := [0xDE, 0xAD, 0xBE, 0xEF], nwrites := 4\<rparr>))"
    using walk_leave [OF d(3) st, of 2] by simp
  have n: "Suc 2 = 3" by simp
  have "run_loop 3 LittleEndian wr_one ?o demo_rom 64 top_of_space ?s =
      Some (Exit EXIT_SUCCESS (init_state\<lparr>off := 0xFFFFFF00, do_read := 2,
            printed := [0x62, 0x6F, 0x6F, 0x74, 0x62, 0x6C, 0x6F, 0x63, 0x6B, 10],
            written := [0xDE, 0xAD, 0xBE, 0xEF], nwrites := 4\<rparr>))"
    using w unfolding n by (simp add: run_loop_def after_loop_def init_state_def)
  then show ?thesis using table_at_demo unfolding nm main_demo_list_read by simp
qed

text \<open>
  The example image on a little-endian host: run as \<^verbatim>\<open>cbfs -l\<close> it prints \<^verbatim>\<open>bootblock\<close> and
  \<^verbatim>\<open>config\<close>, one per line; run as \<^verbatim>\<open>cbfs -l -t 50\<close> it prints \<^verbatim>\<open>config\<close> only; run as
  \<^verbatim>\<open>cbfs -l -r nofile\<close> it prints both names and exits with failure.
\<close>

theorem list_mode_prints_names_witness:
  "(\<exists>s'. main 3 LittleEndian demo_mem wr_one strtoul_zero 2 [] [(CHR ''l'', [])] 0
           = Some (Exit EXIT_SUCCESS s') \<and>
         written s' = [] \<and>
         printed s' = [0x62, 0x6F, 0x6F, 0x74, 0x62, 0x6C, 0x6F, 0x63, 0x6B, 10,
                       0x63, 0x6F, 0x6E, 0x66, 0x69, 0x67, 10]) \<and>
   (\<exists>s'. main 3 LittleEndian demo_mem wr_one (strtoul_of 0x50) 4 []
            [(CHR ''l'', []), (CHR ''t'', [0x35, 0x30])] 0
           = Some (Exit EXIT_SUCCESS s') \<and>
         written s' = [] \<and>
         printed s' = [0x63, 0x6F, 0x6E, 0x66, 0x69, 0x67, 10]) \<and>
   (\<exists>s'. main 3 LittleEndian demo_mem wr_one strtoul_zero 4 []
            [(CHR ''l'', []), (CHR ''r'', nofile)] 0
           = Some (Exit EXIT_FAILURE s') \<and>
         written s' = [] \<and>
         printed s' = [0x62, 0x6F, 0x6F, 0x74, 0x62, 0x6C, 0x6F, 0x63, 0x6B, 10,
                       0x63, 0x6F, 0x6E, 0x66, 0x69, 0x67, 10])"
proof -
  let ?s = "init_state\<lparr>off := 0xFFFFFF00, rom := 0\<rparr>"
  let ?r = "init_state\<lparr>do_read := 1, off := 0xFFFFFF00, rom := 0\<rparr>"
  let ?f = "list_opts\<lparr>do_type := True, cbfs_file_type := 0x50\<rparr>"
  let ?n = "list_read_opts nofile"
  have t: "table_at LittleEndian demo_rom 64 top_of_space (off ?s) (rom ?s) [bootblock, config]"
    using table_at_demo by simp
  have t': "table_at LittleEndian demo_rom 64 top_of_space (off ?r) (rom ?r) [bootblock, config]"
    using table_at_demo by simp
  have l: "do_list list_opts" "\<not> do_type list_opts"
    "do_list ?f" "do_type ?f" "cbfs_file_type ?f = 0x50" "do_list ?n" "\<not> do_type ?n"
    by (simp_all add: list_opts_def list_read_opts_def no_options_def)
  have z: "do_read ?s = 0 \<or> (0 \<notin> set (filename list_opts) \<and>
             (\<forall>r\<in>set [bootblock, config]. \<not> selected list_opts r))"
    "do_read ?s = 0 \<or> (0 \<notin> set (filename ?f) \<and>
             (\<forall>r\<in>set [bootblock, config]. \<not> selected ?f r))"
    by (simp_all add: init_state_def)
  have u: "do_read ?r = 0 \<or> (0 \<notin> set (filename ?n) \<and>
             (\<forall>r\<in>set [bootblock, config]. \<not> selected ?n r))"
    using not_selected_list_read by (simp add: list_read_opts_def no_options_def nofile_def)
  have e: "(if do_read ?s = 1 then EXIT_FAILURE else EXIT_SUCCESS) = EXIT_SUCCESS"
    "(if do_read ?r = 1 then EXIT_FAILURE else EXIT_SUCCESS) = EXIT_FAILURE"
    by (simp_all add: init_state_def)
  have m: "main 3 LittleEndian demo_mem wr_one strtoul_zero 2 [] [(CHR ''l'', [])] 0 =
      run_loop 3 LittleEndian wr_one list_opts demo_rom 64 top_of_space ?s"
    by (simp add: main_def cbfs_demo no_options_def list_opts_def init_state_def)
  have m': "main 3 LittleEndian demo_mem wr_one (strtoul_of 0x50) 4 []
            [(CHR ''l'', []), (CHR ''t'', [0x35, 0x30])] 0 =
      run_loop 3 LittleEndian wr_one ?f demo_rom 64 top_of_space ?s"
    by (simp add: main_def cbfs_demo no_options_def list_opts_def init_state_def strtoul_of_def)
  have n: "Suc (length [bootblock, config] + 0) = 3" by simp
  from list_mode_prints_names [OF t l(1) z(1), of 0 wr_one] obtain s1 where
    "run_loop 3 LittleEndian wr_one list_opts demo_rom 64 top_of_space ?s
       = Some (Exit EXIT_SUCCESS s1)"
    "written s1 = written ?s"
    "printed s1 = printed ?s @ concat (map (\<lambda>r. e_name r @ [10]) [bootblock, config])"
    unfolding n e using l(2) by auto
  then have a: "\<exists>s'. main 3 LittleEndian demo_mem wr_one strtoul_zero 2 [] [(CHR ''l'', [])] 0
           = Some (Exit EXIT_SUCCESS s') \<and>
         written s' = [] \<and>
         printed s' = [0x62, 0x6F, 0x6F, 0x74, 0x62, 0x6C, 0x6F, 0x63, 0x6B, 10,
                       0x63, 0x6F, 0x6E, 0x66, 0x69, 0x67, 10]"
    unfolding m by (intro exI [of _ s1]) (simp add: init_state_def bootblock_def config_def)
  from list_mode_prints_names [OF t l(3) z(2), of 0 wr_one] obtain s2 where
    "run_loop 3 LittleEndian wr_one ?f demo_rom 64 top_of_space ?s
       = Some (Exit EXIT_SUCCESS s2)"
    "written s2 = written ?s"
    "printed s2 = printed ?s @ concat (map (\<lambda>r. e_name r @ [10])
        (filter (\<lambda>r. f_type (e_file r) = cbfs_file_type ?f) [bootblock, config]))"
    unfolding n e using l(4) by auto
  then have b: "\<exists>s'. main 3 LittleEndian demo_mem wr_one (strtoul_of 0x50) 4 []
            [(CHR ''l'', []), (CHR ''t'', [0x35, 0x30])] 0
           = Some (Exit EXIT_SUCCESS s') \<and>
         written s' = [] \<and>
         printed s' = [0x63, 0x6F, 0x6E, 0x66, 0x69, 0x67, 10]"
    unfolding m' by (intro exI [of _ s2]) (simp add: l(5) init_state_def bootblock_def config_def)
  from list_mode_prints_names [OF t' l(6) u, of 0 wr_one] obtain s3 where
    "run_loop 3 LittleEndian wr_one ?n demo_rom 64 top_of_space ?r
       = Some (Exit EXIT_FAILURE s3)"
    "written s3 = written ?r"
    "printed s3 = printed ?r @ concat (map (\<lambda>r. e_name r @ [10]) [bootblock, config])"
    unfolding n e using l(7) by auto
  then have c: "\<exists>s'. main 3 LittleEndian demo_mem wr_one strtoul_zero 4 []
            [(CHR ''l'', []), (CHR ''r'', nofile)] 0
           = Some (Exit EXIT_FAILURE s') \<and>
         written s' = [] \<and>
         printed s' = [0x62, 0x6F, 0x6F, 0x74, 0x62, 0x6C, 0x6F, 0x63, 0x6B, 10,
                       0x63, 0x6F, 0x6E, 0x66, 0x69, 0x67, 10]"
    unfolding main_demo_list_read
    by (intro exI [of _ s3]) (simp add: init_state_def bootblock_def config_def)
  show ?thesis using a b c by (intro conjI)
qed

section \<open>The increment\<close>

lemma and_not_mask_u32: "(y :: u32) AND NOT (2 ^ k - 1) = push_bit k (drop_bit k y)"
proof -
  have "(y :: u32) AND NOT (mask k) = push_bit k (drop_bit k y)"
    by (rule bit_eqI) (auto simp add: bit_simps)
  then show ?thesis by (simp add: mask_eq_exp_minus_1)
qed

lemma unat_round_down:
  "unat ((y :: u32) AND NOT (2 ^ k - 1)) = (unat y div 2 ^ k) * 2 ^ k"
proof -
  have le: "(unat y div 2 ^ k) * 2 ^ k \<le> unat y" by simp
  have "unat y < 2 ^ 32" using unsigned_less [of y, where 'a = nat] by simp
  then have lt: "(unat y div 2 ^ k) * 2 ^ k < 2 ^ 32" using le by linarith
  have "unat (push_bit k (drop_bit k y)) = take_bit 32 (push_bit k (drop_bit k (unat y)))"
    by (simp add: unsigned_push_bit_eq unat_drop_bit_eq)
  also have "\<dots> = take_bit 32 ((unat y div 2 ^ k) * 2 ^ k)"
    by (simp add: push_bit_eq_mult drop_bit_eq_div)
  also have "\<dots> = (unat y div 2 ^ k) * 2 ^ k"
    using lt by (simp add: take_bit_nat_eq_self)
  finally show ?thesis by (simp add: and_not_mask_u32)
qed

lemma unat_sum_minus_one:
  assumes "0 < a" "a + x + l - 1 < 2 ^ 32"
  shows "unat ((of_nat a :: u32) + (of_nat x + of_nat l) - 1) = a + x + l - 1"
proof -
  have "(of_nat a :: u32) + (of_nat x + of_nat l) - 1 = of_nat (a + x + l - 1)"
    using assms(1) by (simp add: of_nat_diff)
  then show ?thesis using assms(2) by (simp add: unat_of_nat)
qed

lemma increment_align_up:
  assumes "align = 2 ^ k" "k < 32"
    and "unat (f_offset file) + unat (f_len file) + 2 ^ k - 1 < 2 ^ 32"
  shows "unat (increment align file) =
           align_up (unat (f_offset file) + unat (f_len file)) (unat align)"
proof -
  let ?x = "unat (f_offset file)" and ?l = "unat (f_len file)"
  have "(2 :: nat) ^ k < 2 ^ 32" using assms(2) by (intro power_strict_increasing) simp_all
  moreover have "align = of_nat (2 ^ k)" using assms(1) by simp
  ultimately have a: "unat align = 2 ^ k" by (simp only: unat_of_nat) simp
  have "align + (f_offset file + f_len file) - 1 =
          (of_nat (2 ^ k) :: u32) + (of_nat ?x + of_nat ?l) - 1"
    using assms(1) by simp
  moreover have "unat ((of_nat (2 ^ k) :: u32) + (of_nat ?x + of_nat ?l) - 1) = 2 ^ k + ?x + ?l - 1"
    using assms(3) by (intro unat_sum_minus_one) simp_all
  ultimately have y: "unat (align + (f_offset file + f_len file) - 1) = 2 ^ k + ?x + ?l - 1"
    by simp
  have i: "unat (increment align file) =
      (unat (align + (f_offset file + f_len file) - 1) div 2 ^ k) * 2 ^ k"
    unfolding increment_def assms(1) by (rule unat_round_down)
  have e: "2 ^ k + ?x + ?l - 1 = ?x + ?l + 2 ^ k - 1" by simp
  show ?thesis unfolding i y a align_up_def e ..
qed

lemma align_up_props:
  assumes "0 < a"
  shows "a dvd align_up x a" "x \<le> align_up x a" "align_up x a < x + a"
    "0 < x \<Longrightarrow> 0 < align_up x a"
proof -
  define n where "n = x + a - 1"
  have u: "align_up x a = n - n mod a"
    by (simp add: align_up_def n_def minus_mod_eq_div_mult)
  have "n mod a < a" using assms by (rule mod_less_divisor)
  moreover have "n mod a \<le> n" by (rule mod_less_eq_dividend)
  moreover have "n = x + a - 1" by (rule n_def)
  ultimately have b: "x \<le> n - n mod a" "n - n mod a < x + a" using assms by linarith+
  show "a dvd align_up x a" by (simp add: align_up_def)
  show le: "x \<le> align_up x a" using b(1) by (simp only: u)
  show "align_up x a < x + a" using b(2) by (simp only: u)
  show "0 < x \<Longrightarrow> 0 < align_up x a" using le by simp
qed

lemma log_name_cursor:
  "log_name opts view p s = Some s' \<Longrightarrow> off s' = off s \<and> rom s' = rom s"
  by (auto simp add: log_name_def split: if_splits option.splits)

lemma list_name_cursor:
  "list_name opts file view p s = Some s' \<Longrightarrow> off s' = off s \<and> rom s' = rom s"
  by (auto simp add: list_name_def split: if_splits option.splits)

lemma step_Continue_cursor:
  assumes c: "step e wr opts view align rom_end s = Continue s'"
    and r: "view_read view (rom s) 24 = Some bs"
  shows "off s' = off s + ucast (increment align (decode_file e bs))"
    and "rom s' = rom s + unat (increment align (decode_file e bs))"
proof -
  let ?f = "decode_file e bs"
  let ?s2 = "vlog opts (FileDump ?f) (vlog opts (PotentialFile (off s)) s)"
  have m: "strncmp (f_magic ?f) CBFS_FILE_MAGIC 8 = Eq"
    using c r by (auto simp add: step_def Let_def split: if_splits)
  obtain s3 where s3: "log_name opts view (rom s + 24) ?s2 = Some s3"
    using c r m by (cases "log_name opts view (rom s + 24) ?s2") (auto simp add: step_def Let_def)
  obtain s4 where s4: "list_name opts ?f view (rom s + 24) s3 = Some s4"
    using c r m s3 by (cases "list_name opts ?f view (rom s + 24) s3") (auto simp add: step_def Let_def)
  have cur: "off s4 = off s" "rom s4 = rom s"
    using log_name_cursor [OF s3] list_name_cursor [OF s4] by simp_all
  have "step e wr opts view align rom_end s =
      (case name_test opts ?f view (rom s + 24) (name_size ?f) s4 of
         Oob \<Rightarrow> OutOfView s4
       | Eq \<Rightarrow> extract_file wr opts view rom_end ?f s4
       | Ne \<Rightarrow> Continue (advance opts align ?f s4))"
    using r m s3 s4 by (simp add: step_def Let_def)
  then have "s' = advance opts align ?f s4"
    using c extract_file_leave [of wr opts view rom_end ?f s4 s']
    by (cases "name_test opts ?f view (rom s + 24) (name_size ?f) s4") simp_all
  then show "off s' = off s + ucast (increment align ?f)"
    and "rom s' = rom s + unat (increment align ?f)"
    using cur by simp_all
qed

lemma step_loop_rom:
  assumes "off s = 0xFFFFFFC0" "rom s = 0" "do_read s = 0"
  shows "step LittleEndian wr list_opts loop_rom 64 top_of_space s = Continue (s\<lparr>printed := printed s @ [10]\<rparr>)"
  using assms
  by (simp add: step_def Let_def vlog_def list_opts_def no_options_def view_read_def loop_rom_def
      decode_file_def ntohl_load32 cat32_def CBFS_FILE_MAGIC_def log_name_def list_name_def
      c_string_def type_ok_def name_test_def advance_def increment_def)

text \<open>
  C2, amended. When an iteration goes on to the next record, \<^verbatim>\<open>align\<close> is a power of two,
  and the record's \<^verbatim>\<open>offset + len\<close> is positive and, with \<^verbatim>\<open>align - 1\<close> added, still fits
  32 bits: the cursor address advances by \<open>align_up (offset + len) align\<close>, the pointer
  \<open>rom\<close> by the same amount, and this difference is a positive multiple of \<^verbatim>\<open>align\<close>, at
  least \<^verbatim>\<open>offset + len\<close> and less than \<^verbatim>\<open>offset + len + align\<close>.
\<close>

theorem consecutive_records_delta:
  assumes c: "step e wr opts view align rom_end s = Continue s'"
    and r: "view_read view (rom s) 24 = Some bs"
    and a: "align = 2 ^ k" "k < 32"
    and n: "unat (f_offset (decode_file e bs)) + unat (f_len (decode_file e bs)) + 2 ^ k - 1 < 2 ^ 32"
    and p: "0 < unat (f_offset (decode_file e bs)) + unat (f_len (decode_file e bs))"
  shows "unat (off s' - off s) =
           align_up (unat (f_offset (decode_file e bs)) + unat (f_len (decode_file e bs))) (unat align) \<and>
         rom s' - rom s = unat (off s' - off s) \<and>
         unat align dvd unat (off s' - off s) \<and>
         0 < unat (off s' - off s) \<and>
         unat (f_offset (decode_file e bs)) + unat (f_len (decode_file e bs)) \<le> unat (off s' - off s) \<and>
         unat (off s' - off s) <
           unat (f_offset (decode_file e bs)) + unat (f_len (decode_file e bs)) + unat align"
proof -
  let ?f = "decode_file e bs"
  let ?x = "unat (f_offset ?f) + unat (f_len ?f)"
  have "off s' - off s = ucast (increment align ?f)"
    using step_Continue_cursor(1) [OF c r] by simp
  then have d: "unat (off s' - off s) = unat (increment align ?f)" by simp
  have m: "rom s' - rom s = unat (increment align ?f)"
    using step_Continue_cursor(2) [OF c r] by simp
  have u: "unat (increment align ?f) = align_up ?x (unat align)"
    using a n by (rule increment_align_up)
  have "(2 :: nat) ^ k < 2 ^ 32" using a(2) by (intro power_strict_increasing) simp_all
  moreover have "align = of_nat (2 ^ k)" using a(1) by simp
  ultimately have "unat align = 2 ^ k" by (simp only: unat_of_nat) simp
  then have pos: "0 < unat align" by simp
  have q: "0 < align_up ?x (unat align)"
    using align_up_props(2) [OF pos, of ?x] p by linarith
  show ?thesis
    using align_up_props(1-3) [OF pos, of ?x] q by (simp add: d m u)
qed

text \<open>
  As stated, C2 fails. On the record of length 0 and offset 0 the loop goes on with the
  cursor where it was: the difference is 0. With alignment 64, a record of offset 24 and
  length \<open>0xFFFFFFF0\<close> advances the cursor by 64, less than its \<^verbatim>\<open>offset + len\<close>, as the sum
  wraps around in 32 bits. With alignment 3, a record of offset 24 and length 76 advances
  it by 100, which 3 does not divide.
\<close>

theorem consecutive_records_delta_counterexample:
  "step LittleEndian wr_one list_opts loop_rom 64 top_of_space at_loop =
     Continue (at_loop\<lparr>printed := [10]\<rparr>) \<and>
   off (at_loop\<lparr>printed := [10]\<rparr>) - off at_loop = 0 \<and>
   increment 64 huge_file = 64 \<and>
   unat (f_offset huge_file) + unat (f_len huge_file) = 4294967304 \<and>
   increment 3 small_file = 100 \<and> \<not> (3 :: nat) dvd 100"
proof -
  have "step LittleEndian wr_one list_opts loop_rom 64 top_of_space at_loop =
     Continue (at_loop\<lparr>printed := printed at_loop @ [10]\<rparr>)"
    by (rule step_loop_rom) (simp_all add: at_loop_def init_state_def)
  then show ?thesis
    by (simp add: at_loop_def init_state_def increment_def huge_file_def small_file_def)
qed

text \<open>
  In the example image the first record has \<^verbatim>\<open>offset + len\<close> = 44 and the loop advances
  by 64.
\<close>

theorem consecutive_records_delta_witness:
  "unat (off (advance list_opts 64 (e_file bootblock) (seen list_opts (e_file bootblock) (e_name bootblock) (init_state\<lparr>off := 0xFFFFFF00\<rparr>)))
      - off (init_state\<lparr>off := 0xFFFFFF00\<rparr>)) = align_up 44 64 \<and>
   align_up 44 64 = 64"
proof -
  let ?s = "init_state\<lparr>off := 0xFFFFFF00\<rparr>"
  let ?s' = "advance list_opts 64 (e_file bootblock) (seen list_opts (e_file bootblock) (e_name bootblock) ?s)"
  have r: "view_read demo_rom (rom ?s) 24 = Some (take 24 demo_rom)"
    by (simp add: view_read_def length_demo_rom init_state_def)
  have d: "decode_file LittleEndian (take 24 demo_rom) = e_file bootblock"
    by (simp add: demo_rom_def decode_file_def ntohl_load32 cat32_def bootblock_def
        CBFS_FILE_MAGIC_def)
  have t: "records_at LittleEndian demo_rom 64 top_of_space (off ?s) (rom ?s) [bootblock, config]"
    using table_at_records_at [OF table_at_demo] by (simp add: init_state_def)
  have c: "step LittleEndian wr_one list_opts demo_rom (2 ^ 6) top_of_space ?s = Continue ?s'"
    using step_record [OF t, of list_opts wr_one] by (simp add: init_state_def)
  have n: "unat (f_offset (decode_file LittleEndian (take 24 demo_rom))) +
           unat (f_len (decode_file LittleEndian (take 24 demo_rom))) + 2 ^ 6 - 1 < 2 ^ 32"
    "0 < unat (f_offset (decode_file LittleEndian (take 24 demo_rom))) +
           unat (f_len (decode_file LittleEndian (take 24 demo_rom)))"
    by (simp_all add: d bootblock_def)
  from consecutive_records_delta [OF c r refl _ n] show ?thesis
    by (simp add: d bootblock_def align_up_def)
qed

section \<open>A walk that never ends\<close>

lemma walk_loop_rom:
  "off s = 0xFFFFFFC0 \<Longrightarrow> rom s = 0 \<Longrightarrow> do_read s = 0 \<Longrightarrow>
     walk n LittleEndian wr list_opts loop_rom 64 top_of_space s = None"
proof (induction n arbitrary: s)
  case 0
  then show ?case by (simp add: top_of_space_def)
next
  case (Suc n)
  let ?s' = "s\<lparr>printed := printed s @ [10]\<rparr>"
  have st: "step LittleEndian wr list_opts loop_rom 64 top_of_space s = Continue ?s'"
    using Suc.prems by (rule step_loop_rom)
  have "walk n LittleEndian wr list_opts loop_rom 64 top_of_space ?s' = None"
    using Suc.prems by (intro Suc.IH) simp_all
  then show ?case using Suc.prems(1) st by (simp add: top_of_space_def)
qed

lemma footer_loop: "copy_physical loop_mem (top_of_space - 4) 4 = [0xDC, 0xFF, 0xFF, 0xFF]"
proof -
  have "copy_physical (image_mem 0xFFFFFFC0 loop_rom) (0xFFFFFFC0 + of_nat 60) 4 =
          take 4 (drop 60 loop_rom)"
    by (rule copy_physical_image) (simp_all add: loop_rom_def)
  then show ?thesis by (simp add: loop_mem_def top_of_space_def loop_rom_def)
qed

lemma header_bytes_loop:
  "copy_physical loop_mem 0xFFFFFFDC 32 =
     [0x4F, 0x52, 0x42, 0x43, 0x31, 0x31, 0x31, 0x32, 0, 0, 0, 0x40, 0, 0, 0, 0,
      0, 0, 0, 0x40, 0, 0, 0, 0, 0, 0, 0, 1, 0, 0, 0, 0]"
proof -
  have "copy_physical (image_mem 0xFFFFFFC0 loop_rom) (0xFFFFFFC0 + of_nat 28) 32 =
          take 32 (drop 28 loop_rom)"
    by (rule copy_physical_image) (simp_all add: loop_rom_def)
  then show ?thesis by (simp add: loop_mem_def loop_rom_def)
qed

lemma view_loop: "map_physical loop_mem 0xFFFFFFC0 0x40 = loop_rom"
  using map_physical_image [of loop_rom "0xFFFFFFC0"]
  by (simp add: loop_mem_def loop_rom_def)

lemma cbfs_loop:
  assumes v: "verbose opts = 0"
  shows "cbfs n LittleEndian loop_mem wr opts s =
       run_loop n LittleEndian wr opts loop_rom 64 top_of_space (s\<lparr>off := 0xFFFFFFC0, rom := 0\<rparr>)"
proof -
  have d: "load32 LittleEndian (copy_physical loop_mem (top_of_space - 4) 4) 0 = 0xFFFFFFDC"
    by (simp add: footer_loop load32_def cat32_def)
  have h: "decode_header LittleEndian (copy_physical loop_mem (top_of_space - 36) 32) =
      demo_header\<lparr>h_romsize := 0x40, h_bootblocksize := 0\<rparr>"
    by (simp add: top_of_space_def header_bytes_loop decode_header_def load32_def ntohl_def
        bswap32_def cat32_def demo_header_def)
  have l: "locate_header LittleEndian loop_mem opts s =
      (demo_header\<lparr>h_romsize := 0x40, h_bootblocksize := 0\<rparr>, s)"
    by (simp add: locate_header_def Let_def vlog_def v d h)
  show ?thesis
    by (simp add: cbfs_def l walk_image_def Let_def)
       (simp add: demo_header_def CBFS_HEADER_MAGIC_def top_of_space_def view_loop)
qed

text \<open>
  C3 fails on the code. Run as \<^verbatim>\<open>cbfs -l\<close> on the memory \<open>loop_mem\<close>, whose only record has
  length 0 and offset 0, the loop is still running after any number \<open>n\<close> of iterations:
  the increment is 0, so the cursor never moves, the magic never differs and \<open>off\<close> never
  reaches the end.
\<close>

theorem walk_never_ends:
  "main n LittleEndian loop_mem wr st 2 prog [(CHR ''l'', [])] 0 = None"
proof -
  have "main n LittleEndian loop_mem wr st 2 prog [(CHR ''l'', [])] 0 =
      run_loop n LittleEndian wr list_opts loop_rom 64 top_of_space
        (init_state\<lparr>do_read := 0, off := 0xFFFFFFC0, rom := 0\<rparr>)"
    by (simp add: main_def cbfs_loop no_options_def list_opts_def)
  also have "\<dots> = None"
    by (simp add: run_loop_def walk_loop_rom)
  finally show ?thesis .
qed

text \<open>
  After a thousand iterations the loop is still running.
\<close>

theorem walk_never_ends_witness:
  "main 1000 LittleEndian loop_mem wr_one strtoul_zero 2 [] [(CHR ''l'', [])] 0 = None"
  by (rule walk_never_ends)

section \<open>Reads and the view\<close>

lemma strncmp_no_oob: "0 \<in> set s \<Longrightarrow> strncmp s t n \<noteq> Oob"
proof (induction s arbitrary: t n)
  case Nil
  then show ?case by simp
next
  case (Cons c s)
  show ?case
  proof (cases "c = 0")
    case True
    then show ?thesis by (simp split: list.splits)
  next
    case False
    then have "0 \<in> set s" using Cons.prems by auto
    then show ?thesis using Cons.IH by (simp split: list.splits)
  qed
qed

lemma cursor_ok_seen [simp]:
  "cursor_ok view rom_end (seen opts file name s) = cursor_ok view rom_end s"
  by (simp add: cursor_ok_def)

lemma extract_file_in_view:
  assumes c: "cursor_ok view top_of_space s" and lt: "off s < top_of_space"
  shows "extract_file wr opts view top_of_space file s \<noteq> OutOfView s'"
proof (cases "off s + ucast (f_offset file) + ucast (f_len file) > top_of_space")
  case True
  then show ?thesis by (simp add: extract_file_def Let_def)
next
  case False
  then have "unat (off s) + unat (f_offset file) + unat (f_len file) \<le> unat top_of_space"
    by (simp add: beyond_rom_iff [OF lt])
  from payload_read [OF c this] False show ?thesis
    by (simp add: extract_file_def Let_def split: prod.splits bool.splits)
qed

text \<open>
  C4, amended. On an iteration whose cursor is inside the region with at least 24 bytes
  left below the end (\<open>off + 24 \<le> end\<close>, the pointer \<open>rom\<close> being in step with \<open>off\<close>) and
  with a NUL byte somewhere in the view behind the 24-byte header: the header read and
  the reads of the name stay inside the view, and so does the read of the payload when
  the record matches; the iteration does not end with a read outside the view.
\<close>

theorem reads_stay_in_view:
  assumes c: "cursor_ok view top_of_space s" and lt: "off s < top_of_space"
    and h: "unat (off s) + 24 \<le> unat top_of_space"
    and z: "0 \<in> set (drop (rom s + 24) view)"
  shows "(\<exists>bs. view_read view (rom s) 24 = Some bs) \<and>
         (\<exists>name. c_string view (rom s + 24) = Some name) \<and>
         (\<forall>s'. step e wr opts view align top_of_space s \<noteq> OutOfView s')"
proof -
  have "rom s + 24 \<le> length view" using c h by (simp add: cursor_ok_def)
  then obtain bs where bs: "view_read view (rom s) 24 = Some bs"
    by (simp add: view_read_def)
  obtain name where nm: "c_string view (rom s + 24) = Some name"
    using z by (simp add: c_string_def)
  let ?f = "decode_file e bs"
  have "step e wr opts view align top_of_space s \<noteq> OutOfView s'" for s'
  proof (cases "f_magic ?f = CBFS_FILE_MAGIC")
    case False
    then show ?thesis by (simp add: step_sentinel [OF bs])
  next
    case True
    let ?s4 = "seen opts ?f name s"
    have n: "name_test opts ?f view (rom s + 24) (name_size ?f) ?s4 \<noteq> Oob"
      using strncmp_no_oob [OF z] by (simp add: name_test_def)
    have x: "extract_file wr opts view top_of_space ?f ?s4 \<noteq> OutOfView s'"
      using c lt by (intro extract_file_in_view) simp_all
    show ?thesis
      using n x
      by (cases "name_test opts ?f view (rom s + 24) (name_size ?f) ?s4")
         (simp_all add: step_decoded [OF bs True nm])
  qed
  then show ?thesis using bs nm by blast
qed

lemma footer_tiny: "copy_physical tiny_mem (top_of_space - 4) 4 = [0xD8, 0xFF, 0xFF, 0xFF]"
proof -
  have "copy_physical tiny_mem (0xFFFFFFD8 + of_nat 36) 4 = [0xD8, 0xFF, 0xFF, 0xFF]"
    unfolding tiny_mem_def by (subst copy_physical_image) simp_all
  then show ?thesis by (simp add: top_of_space_def)
qed

lemma header_bytes_tiny:
  "copy_physical tiny_mem 0xFFFFFFD8 32 =
     [0x4F, 0x52, 0x42, 0x43, 0x31, 0x31, 0x31, 0x32, 0, 0, 0, 8, 0, 0, 0, 0,
      0, 0, 0, 0x40, 0, 0, 0, 0, 0, 0, 0, 1, 0, 0, 0, 0]"
proof -
  have "copy_physical tiny_mem (0xFFFFFFD8 + of_nat 0) 32 =
     [0x4F, 0x52, 0x42, 0x43, 0x31, 0x31, 0x31, 0x32, 0, 0, 0, 8, 0, 0, 0, 0,
      0, 0, 0, 0x40, 0, 0, 0, 0, 0, 0, 0, 1, 0, 0, 0, 0]"
    unfolding tiny_mem_def by (subst copy_physical_image) simp_all
  then show ?thesis by simp
qed

lemma cbfs_tiny:
  assumes v: "verbose opts = 0"
  shows "cbfs n LittleEndian tiny_mem wr opts s =
       run_loop n LittleEndian wr opts (map_physical tiny_mem 0xFFFFFFF8 8) 64 top_of_space
         (s\<lparr>off := 0xFFFFFFF8, rom := 0\<rparr>)"
proof -
  have d: "load32 LittleEndian (copy_physical tiny_mem (top_of_space - 4) 4) 0 = 0xFFFFFFD8"
    by (simp add: footer_tiny load32_def cat32_def)
  have h: "decode_header LittleEndian (copy_physical tiny_mem (top_of_space - 40) 32) =
      demo_header\<lparr>h_romsize := 8, h_bootblocksize := 0\<rparr>"
    by (simp add: top_of_space_def header_bytes_tiny decode_header_def load32_def ntohl_def
        bswap32_def cat32_def demo_header_def)
  have l: "locate_header LittleEndian tiny_mem opts s =
      (demo_header\<lparr>h_romsize := 8, h_bootblocksize := 0\<rparr>, s)"
    by (simp add: locate_header_def Let_def vlog_def v d h)
  show ?thesis
    by (simp add: cbfs_def l walk_image_def Let_def)
       (simp add: demo_header_def CBFS_HEADER_MAGIC_def top_of_space_def)
qed

text \<open>
  As stated, C4 fails. With a header that declares a ROM of 8 bytes, the mapped view has
  8 bytes, \<open>off < end\<close> holds, and the first iteration copies 24 bytes from the view: run as
  \<^verbatim>\<open>cbfs -l\<close>, the program ends with a read outside the view, not with an exit status.
\<close>

theorem reads_stay_in_view_counterexample:
  "length (map_physical tiny_mem 0xFFFFFFF8 8) = 8 \<and>
   main 1 LittleEndian tiny_mem wr_one strtoul_zero 2 [] [(CHR ''l'', [])] 0 =
     Some (Undefined (init_state\<lparr>off := 0xFFFFFFF8\<rparr>))"
proof -
  have l: "length (map_physical tiny_mem 0xFFFFFFF8 8) = 8"
    by (simp add: map_physical_def)
  have "main 1 LittleEndian tiny_mem wr_one strtoul_zero 2 [] [(CHR ''l'', [])] 0 =
      run_loop 1 LittleEndian wr_one list_opts (map_physical tiny_mem 0xFFFFFFF8 8) 64 top_of_space
        (init_state\<lparr>do_read := 0, off := 0xFFFFFFF8, rom := 0\<rparr>)"
    by (simp add: main_def cbfs_tiny no_options_def list_opts_def)
  also have "\<dots> = Some (Undefined (init_state\<lparr>off := 0xFFFFFFF8\<rparr>))"
    by (simp add: run_loop_def step_def Let_def view_read_def l vlog_def list_opts_def
        no_options_def init_state_def top_of_space_def)
  finally show ?thesis using l by simp
qed

text \<open>
  At the second record of the example image, in read mode.
\<close>

theorem reads_stay_in_view_witness:
  "(\<exists>bs. view_read demo_rom 64 24 = Some bs) \<and>
   (\<exists>name. c_string demo_rom (64 + 24) = Some name) \<and>
   (\<forall>s'. step LittleEndian wr_one (read_opts (e_name config)) demo_rom 64 top_of_space at_config
           \<noteq> OutOfView s')"
proof -
  have c: "cursor_ok demo_rom top_of_space at_config"
    by (simp add: cursor_ok_def length_demo_rom top_of_space_def at_config_def)
  have lt: "off at_config < top_of_space"
    by (simp add: top_of_space_def at_config_def)
  have h: "unat (off at_config) + 24 \<le> unat top_of_space"
    by (simp add: top_of_space_def at_config_def)
  have z: "0 \<in> set (drop (rom at_config + 24) demo_rom)"
    by (simp add: at_config_def demo_rom_def)
  from reads_stay_in_view [OF c lt h z, of LittleEndian wr_one "read_opts (e_name config)" 64]
  show ?thesis by (simp add: at_config_def)
qed

section \<open>The command line, the version and the header\<close>

lemma parse_opts_help:
  assumes "\<forall>x\<in>set pre. fst x \<in> {CHR ''v'', CHR ''l'', CHR ''r'', CHR ''t''}"
    and "c = CHR ''h'' \<or> c = CHR ''?''"
  shows "parse_opts st (pre @ (c, a) # post) acc = Inl EXIT_SUCCESS"
  using assms
proof (induction pre arbitrary: acc)
  case Nil
  then show ?case by (cases acc) auto
next
  case (Cons x pre)
  obtain opt optarg where x: "x = (opt, optarg)" by (cases x)
  obtain opts rd where acc: "acc = (opts, rd)" by (cases acc)
  have "opt \<in> {CHR ''v'', CHR ''l'', CHR ''r'', CHR ''t''}" using Cons.prems(1) x by simp
  moreover have "\<And>acc'. parse_opts st (pre @ (c, a) # post) acc' = Inl EXIT_SUCCESS"
    using Cons.prems by (intro Cons.IH) simp_all
  ultimately show ?case by (auto simp add: x acc)
qed

text \<open>
  C9, amended. With no argument at all, and when neither \<^verbatim>\<open>-l\<close> nor \<^verbatim>\<open>-r\<close> was given, the
  program prints the usage text on \<^verbatim>\<open>stderr\<close> and exits with failure. With an operation
  selected and arguments left over, it prints the line \<^verbatim>\<open>Excess arguments?\<close> with the
  program's name, not the usage text, and exits with failure. When \<^verbatim>\<open>getopt_long\<close> returns
  \<^verbatim>\<open>'h'\<close> or \<^verbatim>\<open>'?'\<close> after options it knows (\<^verbatim>\<open>-h\<close>, \<^verbatim>\<open>--help\<close>, \<^verbatim>\<open>-?\<close>), it prints the
  usage text and exits with success.
\<close>

theorem usage_errors:
  "(argc \<le> 1 \<longrightarrow>
      main n e m wr st argc prog getopts rest = Some (Exit EXIT_FAILURE (err Usage init_state))) \<and>
   (1 < argc \<and> parse_opts st getopts (no_options, 0) = Inr (opts, 0) \<and> \<not> do_list opts \<longrightarrow>
      main n e m wr st argc prog getopts rest = Some (Exit EXIT_FAILURE (err Usage init_state))) \<and>
   (1 < argc \<and> parse_opts st getopts (no_options, 0) = Inr (opts, rd) \<and>
    (do_list opts \<or> rd \<noteq> 0) \<and> rest \<noteq> 0 \<longrightarrow>
      main n e m wr st argc prog getopts rest =
        Some (Exit EXIT_FAILURE (err (ExcessArguments prog) init_state))) \<and>
   (1 < argc \<and> (\<forall>x\<in>set pre. fst x \<in> {CHR ''v'', CHR ''l'', CHR ''r'', CHR ''t''}) \<and>
    (c = CHR ''h'' \<or> c = CHR ''?'') \<longrightarrow>
      main n e m wr st argc prog (pre @ (c, a) # post) rest =
        Some (Exit EXIT_SUCCESS (err Usage init_state)))"
proof (intro conjI impI)
  assume "argc \<le> 1"
  then show "main n e m wr st argc prog getopts rest = Some (Exit EXIT_FAILURE (err Usage init_state))"
    by (simp add: main_def)
next
  assume "1 < argc \<and> parse_opts st getopts (no_options, 0) = Inr (opts, 0) \<and> \<not> do_list opts"
  then show "main n e m wr st argc prog getopts rest = Some (Exit EXIT_FAILURE (err Usage init_state))"
    by (simp add: main_def)
next
  assume "1 < argc \<and> parse_opts st getopts (no_options, 0) = Inr (opts, rd) \<and>
    (do_list opts \<or> rd \<noteq> 0) \<and> rest \<noteq> 0"
  then show "main n e m wr st argc prog getopts rest =
        Some (Exit EXIT_FAILURE (err (ExcessArguments prog) init_state))"
    by (auto simp add: main_def)
next
  assume a: "1 < argc \<and> (\<forall>x\<in>set pre. fst x \<in> {CHR ''v'', CHR ''l'', CHR ''r'', CHR ''t''}) \<and>
    (c = CHR ''h'' \<or> c = CHR ''?'')"
  then have "parse_opts st (pre @ (c, a) # post) (no_options, 0) = Inl EXIT_SUCCESS"
    by (intro parse_opts_help) simp_all
  then show "main n e m wr st argc prog (pre @ (c, a) # post) rest =
        Some (Exit EXIT_SUCCESS (err Usage init_state))"
    using a by (simp add: main_def)
qed

text \<open>
  As stated, C9 fails. \<^verbatim>\<open>cbfs -l extra\<close> exits with failure, and \<^verbatim>\<open>stderr\<close> holds the line
  about excess arguments, not the usage text. An option \<^verbatim>\<open>getopt_long\<close> does not know
  makes it return \<^verbatim>\<open>'?'\<close>, and then the program prints the usage text and exits with
  success.
\<close>

theorem usage_errors_counterexample:
  "main 0 LittleEndian demo_mem wr_one strtoul_zero 3 [] [(CHR ''l'', [])] 1 =
     Some (Exit EXIT_FAILURE (err (ExcessArguments []) init_state)) \<and>
   errs (err (ExcessArguments []) init_state) = [ExcessArguments []] \<and>
   ExcessArguments [] \<noteq> Usage \<and>
   main 0 LittleEndian demo_mem wr_one strtoul_zero 2 [] [(CHR ''?'', [])] 0 =
     Some (Exit EXIT_SUCCESS (err Usage init_state))"
  by (simp add: main_def no_options_def init_state_def)

text \<open>
  \<^verbatim>\<open>cbfs\<close>, \<^verbatim>\<open>cbfs -v\<close>, \<^verbatim>\<open>cbfs -l extra\<close> and \<^verbatim>\<open>cbfs -l -h\<close>.
\<close>

theorem usage_errors_witness:
  "main 0 LittleEndian demo_mem wr_one strtoul_zero 1 [] [] 0 =
     Some (Exit EXIT_FAILURE (err Usage init_state)) \<and>
   main 0 LittleEndian demo_mem wr_one strtoul_zero 2 [] [(CHR ''v'', [])] 0 =
     Some (Exit EXIT_FAILURE (err Usage init_state)) \<and>
   main 0 LittleEndian demo_mem wr_one strtoul_zero 3 [] [(CHR ''l'', [])] 1 =
     Some (Exit EXIT_FAILURE (err (ExcessArguments []) init_state)) \<and>
   main 0 LittleEndian demo_mem wr_one strtoul_zero 3 [] ([(CHR ''l'', [])] @ (CHR ''h'', []) # []) 0 =
     Some (Exit EXIT_SUCCESS (err Usage init_state))"
proof -
  have p1: "parse_opts strtoul_zero [(CHR ''v'', [])] (no_options, 0) =
      Inr (no_options\<lparr>verbose := 1\<rparr>, 0)"
    by (simp add: no_options_def)
  have p2: "parse_opts strtoul_zero [(CHR ''l'', [])] (no_options, 0) =
      Inr (no_options\<lparr>do_list := True\<rparr>, 0)"
    by simp
  have 1: "main 0 LittleEndian demo_mem wr_one strtoul_zero 1 [] [] 0 =
     Some (Exit EXIT_FAILURE (err Usage init_state))"
    using usage_errors [of 1 0 LittleEndian demo_mem wr_one strtoul_zero "[]" "[]" 0]
    by simp
  have 2: "main 0 LittleEndian demo_mem wr_one strtoul_zero 2 [] [(CHR ''v'', [])] 0 =
     Some (Exit EXIT_FAILURE (err Usage init_state))"
    using usage_errors [of 2 0 LittleEndian demo_mem wr_one strtoul_zero "[]" "[(CHR ''v'', [])]" 0
        "no_options\<lparr>verbose := 1\<rparr>"] p1
    by (simp add: no_options_def)
  have 3: "main 0 LittleEndian demo_mem wr_one strtoul_zero 3 [] [(CHR ''l'', [])] 1 =
     Some (Exit EXIT_FAILURE (err (ExcessArguments []) init_state))"
    using usage_errors [of 3 0 LittleEndian demo_mem wr_one strtoul_zero "[]" "[(CHR ''l'', [])]" 1
        "no_options\<lparr>do_list := True\<rparr>" 0] p2
    by simp
  have 4: "main 0 LittleEndian demo_mem wr_one strtoul_zero 3 [] ([(CHR ''l'', [])] @ (CHR ''h'', []) # []) 0 =
     Some (Exit EXIT_SUCCESS (err Usage init_state))"
    using usage_errors [of 3 0 LittleEndian demo_mem wr_one strtoul_zero "[]" _ 0 _ _
        "[(CHR ''l'', [])]" "CHR ''h''" "[]" "[]"]
    by simp
  show ?thesis using 1 2 3 4 by simp
qed



text \<open>
  On the example image and a little-endian host: the footer bytes \<^verbatim>\<open>C0 FF FF FF\<close> are read
  as \<open>-64\<close>, the header is found at \<open>0xFFFFFFC0\<close>, and its fields are the ones written.
\<close>

theorem header_locator_recovers_witness:
  "fst (locate_header LittleEndian demo_mem list_opts init_state) = demo_header \<and>
   uint (top_of_space + scast (0xFFFFFFC0 :: u32)) = 4294967232"
proof -
  have f: "copy_physical demo_mem (top_of_space - 4) 4 = host_bytes LittleEndian 0xFFFFFFC0"
    by (simp add: footer_demo host_bytes_def be_bytes_def)
  have a: "top_of_space + scast (0xFFFFFFC0 :: u32) = (0xFFFFFFC0 :: u64)"
    by (simp add: top_of_space_def)
  have h: "copy_physical demo_mem (top_of_space + scast (0xFFFFFFC0 :: u32)) 32 =
        be_bytes 0x4F524243 @ be_bytes 0x31313132 @ be_bytes 0x100 @ be_bytes 0x40 @
        be_bytes 0x40 @ be_bytes 0 @ be_bytes 1 @ host_bytes LittleEndian 0"
    unfolding a by (simp add: header_bytes_demo host_bytes_def be_bytes_def)
  from header_locator_recovers [OF f h, of list_opts init_state] show ?thesis
    by (simp add: demo_header_def)
qed

section \<open>The cursor along a walk, and walks that end\<close>

lemma step_Continue_decoded:
  assumes c: "step e wr opts view align rom_end s = Continue s'"
  shows "\<exists>bs. view_read view (rom s) 24 = Some bs \<and>
              f_magic (decode_file e bs) = CBFS_FILE_MAGIC \<and>
              off s' = off s + ucast (increment align (decode_file e bs)) \<and>
              rom s' = rom s + unat (increment align (decode_file e bs))"
proof -
  obtain bs where r: "view_read view (rom s) 24 = Some bs"
    using c by (cases "view_read view (rom s) 24") (auto simp add: step_def Let_def)
  have "strncmp (f_magic (decode_file e bs)) CBFS_FILE_MAGIC 8 = Eq"
    using c r by (auto simp add: step_def Let_def split: if_splits)
  then have "f_magic (decode_file e bs) = CBFS_FILE_MAGIC"
    using strncmp_magic [OF length_magic_decode [OF r]] by simp
  then show ?thesis using r step_Continue_cursor [OF c r] by blast
qed

lemma unat_advance:
  assumes "off s < top_of_space"
  shows "unat (off s + ucast (i :: u32)) = unat (off s) + unat i"
proof -
  have "unat (off s) < 4294967296"
    using assms by (simp add: word_less_nat_alt unat_top_of_space)
  moreover have "unat i < 4294967296" by (rule unat_u32_bound)
  ultimately have "unat (off s) + unat (ucast i :: u64) < 2 ^ 64" by simp
  then show ?thesis by (simp add: unat_add_lem [THEN iffD1])
qed

lemma cursor_ok_start:
  assumes "start \<le> top_of_space"
  shows "cursor_ok (map_physical m start (top_of_space - start)) top_of_space
           (s\<lparr>off := start, rom := 0\<rparr>)"
proof -
  have "unat (top_of_space - start) = unat top_of_space - unat start"
    using assms by (rule unat_sub)
  moreover have "unat start \<le> unat top_of_space"
    using assms by (simp add: word_le_nat_alt)
  ultimately show ?thesis by (simp add: cursor_ok_def map_physical_def)
qed

lemma cursor_ok_Continue:
  assumes c: "cursor_ok view top_of_space s" and lt: "off s < top_of_space"
    and st: "step e wr opts view align top_of_space s = Continue s'"
  shows "cursor_ok view top_of_space s'"
proof -
  from step_Continue_decoded [OF st] obtain bs where
    "off s' = off s + ucast (increment align (decode_file e bs))"
    "rom s' = rom s + unat (increment align (decode_file e bs))"
    by blast
  then show ?thesis using c by (simp add: cursor_ok_def unat_advance [OF lt])
qed

lemma reaches_cursor_ok:
  assumes "reaches e wr opts view align top_of_space s s'" "cursor_ok view top_of_space s"
  shows "cursor_ok view top_of_space s'"
  using assms
proof (induction rule: reaches.induct)
  case (here s)
  then show ?case .
next
  case (next_record s s' s'')
  then show ?case using cursor_ok_Continue by blast
qed

text \<open>
  X1. From the start of the loop on a region that starts at or below the top of the
  address space, the pointer \<open>rom\<close> stays in step with \<open>off\<close> at every iteration the loop
  reaches, and the read of a matching record's payload never leaves the view: the check
  against the ROM end comes first.
\<close>

theorem payload_reads_in_view:
  assumes "start \<le> top_of_space"
    and "reaches e wr opts (map_physical m start (top_of_space - start)) align top_of_space
           (s0\<lparr>off := start, rom := 0\<rparr>) s"
    and "off s < top_of_space"
  shows "cursor_ok (map_physical m start (top_of_space - start)) top_of_space s \<and>
         (\<forall>s'. extract_file wr opts (map_physical m start (top_of_space - start)) top_of_space
                 file s \<noteq> OutOfView s')"
proof -
  have c: "cursor_ok (map_physical m start (top_of_space - start)) top_of_space s"
    using assms(2) cursor_ok_start [OF assms(1)] by (rule reaches_cursor_ok)
  then show ?thesis using extract_file_in_view [OF c assms(3)] by simp
qed

text \<open>
  The second iteration on the example image.
\<close>

theorem payload_reads_in_view_witness:
  "cursor_ok demo_rom top_of_space
     (advance list_opts 64 (e_file bootblock)
        (seen list_opts (e_file bootblock) (e_name bootblock) (init_state\<lparr>off := 0xFFFFFF00\<rparr>))) \<and>
   (\<forall>s'. extract_file wr_one list_opts demo_rom top_of_space (e_file config)
     (advance list_opts 64 (e_file bootblock)
        (seen list_opts (e_file bootblock) (e_name bootblock) (init_state\<lparr>off := 0xFFFFFF00\<rparr>)))
      \<noteq> OutOfView s')"
proof -
  let ?s = "init_state\<lparr>off := 0xFFFFFF00, rom := 0\<rparr>"
  let ?s' = "advance list_opts 64 (e_file bootblock)
        (seen list_opts (e_file bootblock) (e_name bootblock) ?s)"
  have v: "map_physical demo_mem 0xFFFFFF00 (top_of_space - 0xFFFFFF00) = demo_rom"
    using view_demo by (simp add: top_of_space_def)
  have t: "records_at LittleEndian demo_rom 64 top_of_space (off ?s) (rom ?s) [bootblock, config]"
    using table_at_records_at [OF table_at_demo] by simp
  have c: "step LittleEndian wr_one list_opts demo_rom 64 top_of_space ?s = Continue ?s'"
    using step_record [OF t, of list_opts wr_one] by (simp add: init_state_def)
  have l: "off ?s < top_of_space" by (simp add: top_of_space_def)
  have r: "reaches LittleEndian wr_one list_opts
      (map_physical demo_mem 0xFFFFFF00 (top_of_space - 0xFFFFFF00)) 64 top_of_space ?s ?s'"
    unfolding v using l c reaches.here by (rule reaches.next_record)
  have le: "(0xFFFFFF00 :: u64) \<le> top_of_space" by (simp add: top_of_space_def)
  have l': "off ?s' < top_of_space"
    by (simp add: top_of_space_def bootblock_def increment_def)
  have i: "init_state\<lparr>off := 0xFFFFFF00, rom := 0\<rparr> = init_state\<lparr>off := 0xFFFFFF00\<rparr>"
    by (simp add: init_state_def)
  from payload_reads_in_view [OF le r l', of "e_file config"] show ?thesis
    unfolding v i .
qed

text \<open>
  X2. When no 24 bytes of the view that start with the magic decode to an increment of
  0, the loop ends within as many iterations as there are bytes between the cursor and
  the top of the address space: every iteration that goes on moves the cursor up.
\<close>

theorem walk_ends_when_advancing:
  assumes a: "\<forall>p bs. view_read view p 24 = Some bs \<and> f_magic (decode_file e bs) = CBFS_FILE_MAGIC
                \<longrightarrow> increment align (decode_file e bs) \<noteq> 0"
    and n: "unat top_of_space - unat (off s) \<le> n"
  shows "walk n e wr opts view align top_of_space s \<noteq> None"
  using n
proof (induction n arbitrary: s)
  case 0
  then have "\<not> off s < top_of_space" by (simp add: word_less_nat_alt)
  then show ?case by simp
next
  case (Suc n)
  show ?case
  proof (cases "off s < top_of_space")
    case False
    then show ?thesis by simp
  next
    case True
    show ?thesis
    proof (cases "step e wr opts view align top_of_space s")
      case (Continue s')
      from step_Continue_decoded [OF Continue] obtain bs where
        bs: "view_read view (rom s) 24 = Some bs" "f_magic (decode_file e bs) = CBFS_FILE_MAGIC"
        and o: "off s' = off s + ucast (increment align (decode_file e bs))"
        by blast
      have "increment align (decode_file e bs) \<noteq> 0" using a bs by blast
      then have "0 < unat (increment align (decode_file e bs))"
        by (simp add: unat_gt_0)
      then have "unat (off s) < unat (off s')"
        by (simp add: o unat_advance [OF True])
      moreover have "unat (off s) < unat top_of_space"
        using True by (simp add: word_less_nat_alt)
      ultimately have "unat top_of_space - unat (off s') \<le> n" using Suc.prems by linarith
      then have "walk n e wr opts view align top_of_space s' \<noteq> None" by (rule Suc.IH)
      then show ?thesis using True Continue by simp
    qed (simp_all add: True)
  qed
qed

text \<open>
  The region with the one record \<^verbatim>\<open>boot\<close>: the magic stands at offset 0 only, and the
  increment there is 64.
\<close>

theorem walk_ends_when_advancing_witness:
  "walk 64 LittleEndian wr_one list_opts short_rom 64 top_of_space at_short \<noteq> None"
proof -
  have a: "\<forall>p bs. view_read short_rom p 24 = Some bs \<and>
              f_magic (decode_file LittleEndian bs) = CBFS_FILE_MAGIC
            \<longrightarrow> increment 64 (decode_file LittleEndian bs) \<noteq> 0"
  proof (intro allI impI)
    fix p bs
    assume h: "view_read short_rom p 24 = Some bs \<and>
      f_magic (decode_file LittleEndian bs) = CBFS_FILE_MAGIC"
    then have bs: "bs = take 24 (drop p short_rom)" and "p + 24 \<le> length short_rom"
      by (auto simp add: view_read_def split: if_splits)
    then have p: "p < 41" by (simp add: short_rom_def)
    have "hd (f_magic (decode_file LittleEndian bs)) = 0x4C"
      using h by (simp add: CBFS_FILE_MAGIC_def)
    then have x: "short_rom ! p = 0x4C"
      using p by (simp add: bs decode_file_def hd_drop_conv_nth short_rom_def)
    have "p = 0"
    proof (rule ccontr)
      assume "p \<noteq> 0"
      then have "short_rom ! p \<noteq> 0x4C"
        using p by (simp add: short_rom_def nth_Cons')
      then show False using x by simp
    qed
    then show "increment 64 (decode_file LittleEndian bs) \<noteq> 0"
      by (simp add: bs short_rom_def decode_file_def ntohl_load32 cat32_def increment_def)
  qed
  have n: "unat top_of_space - unat (off at_short) \<le> 64"
    by (simp add: top_of_space_def at_short_def)
  from walk_ends_when_advancing [OF a n] show ?thesis .
qed

end
